theory Spec2Isabelle
  imports Complex_Main
begin

section \<open>The label placer of PearlHunt (src/utils/LabelPlacer.ts)\<close>

text \<open>
  The engine places one text label near every labelled data point of a scatter plot.
  This theory embeds \<^verbatim>\<open>LabelPlacer.ts\<close> function by function.

  Numbers. A JavaScript number is an IEEE double. Coordinates, sizes and option values
  are modelled as \<^typ>\<open>real\<close>: rounding and overflow of finite doubles are outside the
  model. The one place where the code leaves the finite numbers on finite input is the
  division by half the chart width or height in the centre bonus, which is a division by
  zero on an area of zero width or height; a score is therefore a \<open>jsnum\<close>, a real or
  one of the three special values, with the arithmetic of the language. The options
  \<open>rings\<close> and \<open>anglesPerRing\<close> only bound loops; they are taken to be integers.
\<close>

subsection \<open>Scores: numbers with Infinity and NaN\<close>

datatype jsnum = Fin real | PosInf | NegInf | NaN

fun jadd :: "jsnum \<Rightarrow> jsnum \<Rightarrow> jsnum" where
  "jadd (Fin a) (Fin b) = Fin (a + b)"
| "jadd NaN _ = NaN"
| "jadd _ NaN = NaN"
| "jadd PosInf NegInf = NaN"
| "jadd NegInf PosInf = NaN"
| "jadd PosInf _ = PosInf"
| "jadd _ PosInf = PosInf"
| "jadd NegInf _ = NegInf"
| "jadd _ NegInf = NegInf"

fun jneg :: "jsnum \<Rightarrow> jsnum" where
  "jneg (Fin a) = Fin (- a)"
| "jneg PosInf = NegInf"
| "jneg NegInf = PosInf"
| "jneg NaN = NaN"

definition jsub :: "jsnum \<Rightarrow> jsnum \<Rightarrow> jsnum" where
  "jsub a b = jadd a (jneg b)"

fun jmul :: "jsnum \<Rightarrow> jsnum \<Rightarrow> jsnum" where
  "jmul (Fin a) (Fin b) = Fin (a * b)"
| "jmul NaN _ = NaN"
| "jmul _ NaN = NaN"
| "jmul PosInf (Fin b) = (if b = 0 then NaN else if 0 < b then PosInf else NegInf)"
| "jmul NegInf (Fin b) = (if b = 0 then NaN else if 0 < b then NegInf else PosInf)"
| "jmul (Fin a) PosInf = (if a = 0 then NaN else if 0 < a then PosInf else NegInf)"
| "jmul (Fin a) NegInf = (if a = 0 then NaN else if 0 < a then NegInf else PosInf)"
| "jmul PosInf PosInf = PosInf"
| "jmul NegInf NegInf = PosInf"
| "jmul PosInf NegInf = NegInf"
| "jmul NegInf PosInf = NegInf"

text \<open>Division: a real zero stands for the positive zero of the language.\<close>

fun jdiv :: "jsnum \<Rightarrow> jsnum \<Rightarrow> jsnum" where
  "jdiv (Fin a) (Fin b) =
     (if b \<noteq> 0 then Fin (a / b)
      else if a = 0 then NaN else if 0 < a then PosInf else NegInf)"
| "jdiv NaN _ = NaN"
| "jdiv _ NaN = NaN"
| "jdiv (Fin a) _ = Fin 0"
| "jdiv PosInf (Fin b) = (if 0 \<le> b then PosInf else NegInf)"
| "jdiv NegInf (Fin b) = (if 0 \<le> b then NegInf else PosInf)"
| "jdiv _ _ = NaN"

fun jsqrt :: "jsnum \<Rightarrow> jsnum" where
  "jsqrt (Fin a) = (if a < 0 then NaN else Fin (sqrt a))"
| "jsqrt PosInf = PosInf"
| "jsqrt NegInf = NaN"
| "jsqrt NaN = NaN"

text \<open>The comparisons \<^verbatim>\<open><=\<close> and \<^verbatim>\<open>>\<close>; both are false when a side is NaN.\<close>

fun jle :: "jsnum \<Rightarrow> jsnum \<Rightarrow> bool" where
  "jle (Fin a) (Fin b) = (a \<le> b)"
| "jle NaN _ = False"
| "jle _ NaN = False"
| "jle NegInf _ = True"
| "jle _ PosInf = True"
| "jle _ _ = False"

fun jgt :: "jsnum \<Rightarrow> jsnum \<Rightarrow> bool" where
  "jgt (Fin a) (Fin b) = (a > b)"
| "jgt NaN _ = False"
| "jgt _ NaN = False"
| "jgt PosInf PosInf = False"
| "jgt PosInf _ = True"
| "jgt NegInf _ = False"
| "jgt (Fin a) NegInf = True"
| "jgt (Fin a) PosInf = False"

subsection \<open>Data model (src/utils/types.ts and the interfaces of LabelPlacer.ts)\<close>

text \<open>
  A \<open>Point\<close> carries an optional reference \<open>allPoints\<close> to the array of all points, which
  contains the point itself. The scorer reads of each referenced point its position and
  whether it is the very object being placed (\<^verbatim>\<open>otherPt === pt\<close>), so a reference is
  modelled as the triple of the object's identity and its two coordinates. A point has
  the identity \<open>Some i\<close> of its object; \<open>None\<close> is the identity of an object created
  during the pass (the combined point of a group), identical to no referenced object.
\<close>

record PointRef =
  r_ident :: nat
  r_x :: real
  r_y :: real

record Point =
  p_ident :: "nat option"
  p_x :: real
  p_y :: real
  p_text :: string
  p_width :: real
  p_height :: real
  p_allPoints :: "PointRef list option"

record Candidate =
  c_x :: real
  c_y :: real
  c_rotation :: real
  c_score :: jsnum

record LabelBox =
  l_x :: real
  l_y :: real
  l_width :: real
  l_height :: real
  l_rotation :: real
  l_text :: string
  l_forPoint :: Point

record ChartSize =
  cs_width :: real
  cs_height :: real

record RTreeBox =
  minX :: real
  minY :: real
  maxX :: real
  maxY :: real
  ref :: "LabelBox option"

record LabelPlacerOptions =
  radius :: real
  rings :: int
  anglesPerRing :: int
  padding :: real
  overlapPenalty :: real
  pointPenalty :: real
  outOfBoundsPenalty :: real
  idealAngleBonus :: real
  debug :: bool

text \<open>The argument of the constructor: every option may be left out.\<close>

record PartialOptions =
  o_radius :: "real option"
  o_rings :: "int option"
  o_anglesPerRing :: "int option"
  o_padding :: "real option"
  o_overlapPenalty :: "real option"
  o_pointPenalty :: "real option"
  o_outOfBoundsPenalty :: "real option"
  o_idealAngleBonus :: "real option"
  o_debug :: "bool option"

definition DEFAULT_OPTIONS :: LabelPlacerOptions where
  "DEFAULT_OPTIONS =
     \<lparr>radius = 10, rings = 5, anglesPerRing = 32, padding = 4, overlapPenalty = 1000,
      pointPenalty = 500, outOfBoundsPenalty = 300, idealAngleBonus = 0, debug = False\<rparr>"

text \<open>
  The spread \<^verbatim>\<open>{ ...DEFAULT_OPTIONS, ...options }\<close>: a key present in \<open>options\<close>
  overrides the default, a key left out keeps it.
\<close>

definition spread :: "'a \<Rightarrow> 'a option \<Rightarrow> 'a" where
  "spread d v = (case v of None \<Rightarrow> d | Some w \<Rightarrow> w)"

definition mergeOptions :: "LabelPlacerOptions \<Rightarrow> PartialOptions \<Rightarrow> LabelPlacerOptions" where
  "mergeOptions d opts =
     \<lparr>radius = spread (radius d) (o_radius opts),
      rings = spread (rings d) (o_rings opts),
      anglesPerRing = spread (anglesPerRing d) (o_anglesPerRing opts),
      padding = spread (padding d) (o_padding opts),
      overlapPenalty = spread (overlapPenalty d) (o_overlapPenalty opts),
      pointPenalty = spread (pointPenalty d) (o_pointPenalty opts),
      outOfBoundsPenalty = spread (outOfBoundsPenalty d) (o_outOfBoundsPenalty opts),
      idealAngleBonus = spread (idealAngleBonus d) (o_idealAngleBonus opts),
      debug = spread (debug d) (o_debug opts)\<rparr>"

text \<open>The constructor's default argument \<^verbatim>\<open>options = {}\<close>.\<close>

definition noOptions :: PartialOptions where
  "noOptions =
     \<lparr>o_radius = None, o_rings = None, o_anglesPerRing = None, o_padding = None,
      o_overlapPenalty = None, o_pointPenalty = None, o_outOfBoundsPenalty = None,
      o_idealAngleBonus = None, o_debug = None\<rparr>"

text \<open>
  The placer object. The spatial index \<open>tree\<close> (an R-tree of the rbush library) is
  modelled by the list of the boxes inserted, in insertion order. The diagnostics
  (\<open>debugInfo\<close>, console warnings) are written and never read by the placement; they are
  left out.
\<close>

record LabelPlacer =
  chartSize :: ChartSize
  options :: LabelPlacerOptions
  tree :: "RTreeBox list"
  placedLabels :: "LabelBox list"

definition newLabelPlacer :: "ChartSize \<Rightarrow> PartialOptions \<Rightarrow> LabelPlacer" where
  "newLabelPlacer sz opts =
     \<lparr>chartSize = sz, options = mergeOptions DEFAULT_OPTIONS opts,
      tree = [], placedLabels = []\<rparr>"

datatype error = TypeError

subsection \<open>Helpers\<close>

definition toRTreeBox :: "LabelBox \<Rightarrow> real \<Rightarrow> RTreeBox" where
  "toRTreeBox label pad =
     \<lparr>minX = l_x label - pad, minY = l_y label - pad,
      maxX = l_x label + l_width label + pad, maxY = l_y label + l_height label + pad,
      ref = Some label\<rparr>"

definition pointInRect :: "real \<Rightarrow> real \<Rightarrow> real \<Rightarrow> real \<Rightarrow> real \<Rightarrow> real \<Rightarrow> bool" where
  "pointInRect px py rx ry rw rh =
     (px \<ge> rx \<and> px \<le> rx + rw \<and> py \<ge> ry \<and> py \<le> ry + rh)"

text \<open>
  The library's search returns the boxes of the tree that intersect the query box,
  borders included (rbush: \<^verbatim>\<open>b.minX <= a.maxX && b.minY <= a.maxY && b.maxX >= a.minX
  && b.maxY >= a.minY\<close>).
\<close>

definition intersects :: "RTreeBox \<Rightarrow> RTreeBox \<Rightarrow> bool" where
  "intersects a b =
     (minX b \<le> maxX a \<and> minY b \<le> maxY a \<and> maxX b \<ge> minX a \<and> maxY b \<ge> minY a)"

definition search :: "RTreeBox list \<Rightarrow> RTreeBox \<Rightarrow> RTreeBox list" where
  "search t q = filter (\<lambda>b. intersects q b) t"

definition queryBox :: "real \<Rightarrow> real \<Rightarrow> real \<Rightarrow> real \<Rightarrow> RTreeBox" where
  "queryBox x0 y0 x1 y1 = \<lparr>minX = x0, minY = y0, maxX = x1, maxY = y1, ref = None\<rparr>"

definition isOutOfBounds :: "ChartSize \<Rightarrow> real \<Rightarrow> real \<Rightarrow> real \<Rightarrow> real \<Rightarrow> bool" where
  "isOutOfBounds sz bx0 by0 bw bh =
     (let margin = 1 in
      bx0 < margin \<or> by0 < margin \<or>
      bx0 + bw > cs_width sz - margin \<or> by0 + bh > cs_height sz - margin)"

definition exclusionRadius :: real where
  "exclusionRadius = 6 + 1"

subsection \<open>Candidate generation (generateCandidates)\<close>

definition mkCandidate :: "real \<Rightarrow> real \<Rightarrow> Candidate" where
  "mkCandidate cx cy = \<lparr>c_x = cx, c_y = cy, c_rotation = 0, c_score = Fin 0\<rparr>"

text \<open>The distance from the centre of the label box at \<open>(cx, cy)\<close> to the point.\<close>

definition distanceToPoint :: "Point \<Rightarrow> real \<Rightarrow> real \<Rightarrow> real" where
  "distanceToPoint pt cx cy =
     sqrt ((cx + p_width pt / 2 - p_x pt)\<^sup>2 + (cy + p_height pt / 2 - p_y pt)\<^sup>2)"

text \<open>
  One turn of the first loop, in two steps. First the position of the candidate at angle
  \<open>i\<close> of the 64 primary angles: the nearest edge of the box at the exclusion radius,
  clamped into the chart.
\<close>

definition primaryPosition :: "ChartSize \<Rightarrow> Point \<Rightarrow> nat \<Rightarrow> real \<times> real" where
  "primaryPosition sz pt i =
     (let margin = 1;
          loX = margin; loY = margin;
          hiX = cs_width sz - margin - p_width pt;
          hiY = cs_height sz - margin - p_height pt;
          primaryAngleStep = (2 * pi) / 64;
          angle = real i * primaryAngleStep;
          cs = cos angle; sn = sin angle;
          dx = (if \<bar>cs\<bar> > \<bar>sn\<bar>
                then (if cs > 0 then exclusionRadius else - exclusionRadius - p_width pt)
                else cs * exclusionRadius - p_width pt / 2);
          dy = (if \<bar>cs\<bar> > \<bar>sn\<bar>
                then sn * exclusionRadius - p_height pt / 2
                else (if sn > 0 then exclusionRadius else - exclusionRadius - p_height pt));
          candidateX = max loX (min (p_x pt + dx) hiX);
          candidateY = max loY (min (p_y pt + dy) hiY)
      in (candidateX, candidateY))"

text \<open>
  Then the test: the candidate is pushed only when the centre of the box is at least the
  exclusion radius from the point.
\<close>

definition pushIfFarEnough :: "Point \<Rightarrow> real \<times> real \<Rightarrow> Candidate list" where
  "pushIfFarEnough pt pos =
     (if distanceToPoint pt (fst pos) (snd pos) \<ge> exclusionRadius
      then [mkCandidate (fst pos) (snd pos)] else [])"

definition primaryCandidate :: "ChartSize \<Rightarrow> Point \<Rightarrow> nat \<Rightarrow> Candidate list" where
  "primaryCandidate sz pt i = pushIfFarEnough pt (primaryPosition sz pt i)"

text \<open>
  One turn of the inner loop of the expanding rings: ring \<open>r\<close>, angle \<open>i\<close> of \<open>angles\<close>,
  clamped and tested in the same way.
\<close>

definition expandingPosition :: "ChartSize \<Rightarrow> Point \<Rightarrow> nat \<Rightarrow> nat \<Rightarrow> nat \<Rightarrow> real \<times> real" where
  "expandingPosition sz pt r angles i =
     (let margin = 1;
          loX = margin; loY = margin;
          hiX = cs_width sz - margin - p_width pt;
          hiY = cs_height sz - margin - p_height pt;
          rScale = 1 + real r * 0.5;
          angle = (real i / real angles) * pi * 2;
          dx = cos angle * (exclusionRadius * rScale);
          dy = sin angle * (exclusionRadius * rScale);
          candidateX = max loX (min (p_x pt + dx) hiX);
          candidateY = max loY (min (p_y pt + dy) hiY)
      in (candidateX, candidateY))"

definition expandingCandidate :: "ChartSize \<Rightarrow> Point \<Rightarrow> nat \<Rightarrow> nat \<Rightarrow> nat \<Rightarrow> Candidate list" where
  "expandingCandidate sz pt r angles i = pushIfFarEnough pt (expandingPosition sz pt r angles i)"

definition expandingRing :: "ChartSize \<Rightarrow> LabelPlacerOptions \<Rightarrow> Point \<Rightarrow> nat \<Rightarrow> Candidate list" where
  "expandingRing sz opts pt r =
     (let angles = nat (max 8 (anglesPerRing opts div (int r + 1)))
      in concat (map (expandingCandidate sz pt r angles) [0..<angles]))"

text \<open>
  A candidate of the last two loops: the box centred at distance \<open>r\<close>, not clamped and
  not tested. It is centred at that distance in exact arithmetic; the doubles of the
  program are so up to rounding.
\<close>

definition ringCandidate :: "Point \<Rightarrow> real \<Rightarrow> real \<Rightarrow> Candidate" where
  "ringCandidate pt r angle =
     mkCandidate (p_x pt + r * cos angle - p_width pt / 2)
                 (p_y pt + r * sin angle - p_height pt / 2)"

definition fallbackRing :: "LabelPlacerOptions \<Rightarrow> Point \<Rightarrow> nat \<Rightarrow> Candidate list" where
  "fallbackRing opts pt ring =
     (let r = exclusionRadius + real ring * 5;
          totalAngles = anglesPerRing opts;
          angleStep = (2 * pi) / real_of_int totalAngles
      in map (\<lambda>i. ringCandidate pt r (real i * angleStep)) [0..<nat totalAngles])"

definition halfStepRing :: "LabelPlacerOptions \<Rightarrow> Point \<Rightarrow> nat \<Rightarrow> Candidate list" where
  "halfStepRing opts pt ring =
     (let r = max exclusionRadius (radius opts * real ring);
          totalAngles = anglesPerRing opts;
          angleStep = (2 * pi) / real_of_int totalAngles;
          halfStep = angleStep / 2
      in map (\<lambda>i. ringCandidate pt r (real i * angleStep + halfStep)) [0..<nat totalAngles])"

text \<open>
  The four loops in the order of the source: \<open>i = 0 .. 63\<close>; \<open>r = 1 .. rings - 1\<close>;
  \<open>ring = 1 .. rings\<close> twice.
\<close>

definition generateCandidates :: "LabelPlacer \<Rightarrow> Point \<Rightarrow> Candidate list" where
  "generateCandidates this pt =
     (let sz = chartSize this; opts = options this; n = nat (rings opts)
      in concat (map (primaryCandidate sz pt) [0..<64])
         @ concat (map (expandingRing sz opts pt) [1..<n])
         @ concat (map (fallbackRing opts pt) [1..<Suc n])
         @ concat (map (halfStepRing opts pt) [1..<Suc n]))"

subsection \<open>Scoring and selection (placeLabelForPoint)\<close>

text \<open>
  The sum of \<open>pointPenalty\<close> over the referenced points, other than the point itself,
  that lie in the candidate's box.
\<close>

definition coveredPenalty :: "LabelPlacerOptions \<Rightarrow> Point \<Rightarrow> Candidate \<Rightarrow> PointRef list \<Rightarrow> real" where
  "coveredPenalty opts pt c others =
     fold (\<lambda>otherPt acc.
             if Some (r_ident otherPt) = p_ident pt then acc
             else if pointInRect (r_x otherPt) (r_y otherPt) (c_x c) (c_y c) (p_width pt) (p_height pt)
             then acc + pointPenalty opts else acc)
          others 0"

definition centerBonus :: "ChartSize \<Rightarrow> real \<Rightarrow> real \<Rightarrow> jsnum" where
  "centerBonus sz labelCenterX labelCenterY =
     (let centerX = cs_width sz / 2;
          centerY = cs_height sz / 2;
          dx = jdiv (Fin (labelCenterX - centerX)) (Fin (cs_width sz / 2));
          dy = jdiv (Fin (labelCenterY - centerY)) (Fin (cs_height sz / 2));
          distanceFromCenter = jdiv (jsqrt (jadd (jmul dx dx) (jmul dy dy))) (Fin (sqrt 2))
      in jmul (jsub (Fin 1) distanceFromCenter) (Fin 10))"

text \<open>
  The body of the first pass over the candidates computes the score of one candidate in
  six steps, each of which updates the running \<open>score\<close>.

  1) Overlap with the labels placed so far, the boxes padded by 2 pixels.
\<close>

definition collisions :: "LabelPlacer \<Rightarrow> Point \<Rightarrow> Candidate \<Rightarrow> RTreeBox list" where
  "collisions this pt c =
     (let labelPadding = 2
      in search (tree this)
           (queryBox (c_x c - labelPadding) (c_y c - labelPadding)
                     (c_x c + p_width pt + labelPadding) (c_y c + p_height pt + labelPadding)))"

definition overlapStep :: "LabelPlacer \<Rightarrow> Point \<Rightarrow> Candidate \<Rightarrow> jsnum \<Rightarrow> jsnum" where
  "overlapStep this pt c score =
     (if length (collisions this pt c) > 0
      then jsub score (Fin (100000 * real (length (collisions this pt c)))) else score)"

text \<open>2) Covering other data points, when the point carries \<open>allPoints\<close>.\<close>

definition pointStep :: "LabelPlacer \<Rightarrow> Point \<Rightarrow> Candidate \<Rightarrow> jsnum \<Rightarrow> jsnum" where
  "pointStep this pt c score =
     (case p_allPoints pt of
        None \<Rightarrow> score
      | Some others \<Rightarrow>
          (let pen = coveredPenalty (options this) pt c others
           in if pen > 0 then jsub score (Fin pen) else score))"

text \<open>2.5) The centre of the box within 10 pixels of a border of the chart.\<close>

definition borderStep :: "ChartSize \<Rightarrow> real \<Rightarrow> real \<Rightarrow> jsnum \<Rightarrow> jsnum" where
  "borderStep sz labelCenterX labelCenterY score =
     (let minBorderDistance = min (min labelCenterX (cs_width sz - labelCenterX))
                                  (min labelCenterY (cs_height sz - labelCenterY));
          borderThreshold = 10
      in if minBorderDistance < borderThreshold
         then jsub score (Fin (((borderThreshold - minBorderDistance) / borderThreshold)\<^sup>2 * 100))
         else score)"

text \<open>3) Any part of the box outside the chart less its margin.\<close>

definition outOfBoundsStep :: "LabelPlacer \<Rightarrow> Point \<Rightarrow> Candidate \<Rightarrow> jsnum \<Rightarrow> jsnum" where
  "outOfBoundsStep this pt c score =
     (if isOutOfBounds (chartSize this) (c_x c) (c_y c) (p_width pt) (p_height pt)
      then jsub score (Fin (outOfBoundsPenalty (options this))) else score)"

text \<open>4) Ten points for every pixel between the centre of the box and the point.\<close>

definition distanceStep :: "Point \<Rightarrow> real \<Rightarrow> real \<Rightarrow> jsnum \<Rightarrow> jsnum" where
  "distanceStep pt labelCenterX labelCenterY score =
     (let distance = sqrt ((labelCenterX - p_x pt)\<^sup>2 + (labelCenterY - p_y pt)\<^sup>2);
          distancePenalty = distance * 10
      in jsub score (Fin distancePenalty))"

text \<open>The steps in the order of the source; 2.6) adds the centre bonus.\<close>

definition scoreCandidate :: "LabelPlacer \<Rightarrow> Point \<Rightarrow> Candidate \<Rightarrow> Candidate" where
  "scoreCandidate this pt c =
     (let score1 = overlapStep this pt c (Fin 0);
          score2 = pointStep this pt c score1;
          labelCenterX = c_x c + p_width pt / 2;
          labelCenterY = c_y c + p_height pt / 2;
          score3 = borderStep (chartSize this) labelCenterX labelCenterY score2;
          score4 = jadd score3 (centerBonus (chartSize this) labelCenterX labelCenterY);
          score5 = outOfBoundsStep this pt c score4;
          score6 = distanceStep pt labelCenterX labelCenterY score5
      in c\<lparr>c_score := score6\<rparr>)"

text \<open>
  The test of the second pass: a corner of the box nearer to the point than the
  exclusion radius, or the box overlapping the square around the exclusion disk.
\<close>

definition violatesBoundary :: "Point \<Rightarrow> Candidate \<Rightarrow> bool" where
  "violatesBoundary pt cand =
     (let labelCorners = [(c_x cand, c_y cand), (c_x cand + p_width pt, c_y cand),
                          (c_x cand, c_y cand + p_height pt),
                          (c_x cand + p_width pt, c_y cand + p_height pt)]
      in list_ex (\<lambda>(qx, qy). sqrt ((qx - p_x pt)\<^sup>2 + (qy - p_y pt)\<^sup>2) < exclusionRadius)
                 labelCorners)"

definition overlapsExclusionZone :: "Point \<Rightarrow> Candidate \<Rightarrow> bool" where
  "overlapsExclusionZone pt cand =
     (let labelLeft = c_x cand; labelRight = c_x cand + p_width pt;
          labelTop = c_y cand; labelBottom = c_y cand + p_height pt;
          exclusionLeft = p_x pt - exclusionRadius; exclusionRight = p_x pt + exclusionRadius;
          exclusionTop = p_y pt - exclusionRadius; exclusionBottom = p_y pt + exclusionRadius;
          overlapsHorizontally = (labelLeft < exclusionRight \<and> labelRight > exclusionLeft);
          overlapsVertically = (labelTop < exclusionBottom \<and> labelBottom > exclusionTop)
      in overlapsHorizontally \<and> overlapsVertically)"

definition applyBoundaryPenalty :: "Point \<Rightarrow> Candidate \<Rightarrow> Candidate" where
  "applyBoundaryPenalty pt cand =
     (if overlapsExclusionZone pt cand \<or> violatesBoundary pt cand
      then cand\<lparr>c_score := jsub (c_score cand) (Fin 100000)\<rparr> else cand)"

text \<open>
  \<^verbatim>\<open>Array.prototype.sort\<close> with a comparison function: the sort is stable, \<open>a\<close> goes
  behind \<open>b\<close> when the comparison is positive, and a comparison that is NaN counts as
  zero. Insertion from the right is such a sort. (Whenever the comparison is consistent
  every stable sort returns the same array; it is consistent in every use below, see
  \<open>scores_uniform\<close>.)
\<close>

fun insort_js :: "('a \<Rightarrow> 'a \<Rightarrow> jsnum) \<Rightarrow> 'a \<Rightarrow> 'a list \<Rightarrow> 'a list" where
  "insort_js cmp a [] = [a]"
| "insort_js cmp a (b # bs) =
     (if jgt (cmp a b) (Fin 0) then b # insort_js cmp a bs else a # b # bs)"

definition sort_js :: "('a \<Rightarrow> 'a \<Rightarrow> jsnum) \<Rightarrow> 'a list \<Rightarrow> 'a list" where
  "sort_js cmp xs = foldr (insort_js cmp) xs []"

definition byScoreDescending :: "Candidate \<Rightarrow> Candidate \<Rightarrow> jsnum" where
  "byScoreDescending a b = jsub (c_score b) (c_score a)"

definition scoredCandidates :: "LabelPlacer \<Rightarrow> Point \<Rightarrow> Candidate list" where
  "scoredCandidates this pt =
     map (applyBoundaryPenalty pt) (map (scoreCandidate this pt) (generateCandidates this pt))"

text \<open>
  \<open>Inl TypeError\<close>: reading \<^verbatim>\<open>chosen.score\<close> when the sorted array is empty.
  \<open>Inr None\<close>: the label is skipped. \<open>Inr (Some label)\<close>: the label to commit.
\<close>

definition placeLabelForPoint :: "LabelPlacer \<Rightarrow> Point \<Rightarrow> error + LabelBox option" where
  "placeLabelForPoint this pt =
     (case sort_js byScoreDescending (scoredCandidates this pt) of
        [] \<Rightarrow> Inl TypeError
      | chosen # _ \<Rightarrow>
          if jle (c_score chosen) (Fin (- 100000)) then Inr None
          else Inr (Some \<lparr>l_x = c_x chosen, l_y = c_y chosen,
                           l_width = p_width pt, l_height = p_height pt,
                           l_rotation = c_rotation chosen, l_text = p_text pt,
                           l_forPoint = pt\<rparr>))"

subsection \<open>The placement pass (placeAll)\<close>

text \<open>
  The white space that \<^verbatim>\<open>trim\<close> removes, as far as it fits in one character: tab, line
  feed, vertical tab, form feed, carriage return, space and the no-break space.
\<close>

definition isWhiteSpace :: "char \<Rightarrow> bool" where
  "isWhiteSpace ch = ((of_char ch :: nat) \<in> {9, 10, 11, 12, 13, 32, 160})"

definition trim :: "string \<Rightarrow> string" where
  "trim t = rev (dropWhile isWhiteSpace (rev (dropWhile isWhiteSpace t)))"

text \<open>The filter \<^verbatim>\<open>pt.text && pt.text.trim() !== ''\<close>.\<close>

definition hasLabel :: "Point \<Rightarrow> bool" where
  "hasLabel pt = (p_text pt \<noteq> [] \<and> trim (p_text pt) \<noteq> [])"

text \<open>
  The key of a point's group, the string made of the two rounded coordinates, is
  modelled by the pair of integers; \<^verbatim>\<open>Math.round\<close> rounds halves upwards.
\<close>

definition mathRound :: "real \<Rightarrow> int" where
  "mathRound v = \<lfloor>v + 1 / 2\<rfloor>"

definition groupKey :: "Point \<Rightarrow> int \<times> int" where
  "groupKey pt = (mathRound (p_x pt), mathRound (p_y pt))"

text \<open>
  The map of the groups keeps its keys in the order of their first insertion; it is an
  association list. \<open>addToGroup\<close> is one turn of the \<^verbatim>\<open>forEach\<close>.
\<close>

fun addToGroup :: "Point \<Rightarrow> ((int \<times> int) \<times> Point list) list \<Rightarrow> ((int \<times> int) \<times> Point list) list" where
  "addToGroup pt [] = [(groupKey pt, [pt])]"
| "addToGroup pt ((k, g) # rest) =
     (if k = groupKey pt then (k, g @ [pt]) # rest else (k, g) # addToGroup pt rest)"

definition pointGroups :: "Point list \<Rightarrow> ((int \<times> int) \<times> Point list) list" where
  "pointGroups pts = foldl (\<lambda>m pt. addToGroup pt m) [] pts"

text \<open>
  The comparison \<^verbatim>\<open>a[0].y - b[0].y\<close> of two groups. No group is empty
  (\<open>pointGroups_nonempty\<close>), so the second case is never reached.
\<close>

definition byFirstY :: "((int \<times> int) \<times> Point list) \<Rightarrow> ((int \<times> int) \<times> Point list) \<Rightarrow> jsnum" where
  "byFirstY ea eb =
     (case (snd ea, snd eb) of
        (a0 # _, b0 # _) \<Rightarrow> Fin (p_y a0 - p_y b0)
      | _ \<Rightarrow> NaN)"

definition sortedGroups :: "Point list \<Rightarrow> ((int \<times> int) \<times> Point list) list" where
  "sortedGroups pts = sort_js byFirstY (pointGroups pts)"

definition join :: "string \<Rightarrow> string list \<Rightarrow> string" where
  "join sep ts = (case ts of [] \<Rightarrow> [] | t # rest \<Rightarrow> t @ concat (map (\<lambda>u. sep @ u) rest))"

text \<open>
  The point placed for a group of more than one member: a new object, the first member
  with the joined text and the largest width and height of the members.
\<close>

definition combinedPoint :: "Point \<Rightarrow> Point list \<Rightarrow> Point" where
  "combinedPoint firstPoint others =
     firstPoint\<lparr>p_ident := None,
                p_text := join '', '' (map p_text (firstPoint # others)),
                p_width := fold max (map p_width others) (p_width firstPoint),
                p_height := fold max (map p_height others) (p_height firstPoint)\<rparr>"

text \<open>The point a group is placed for. An empty group has no first member to read.\<close>

definition groupPoint :: "Point list \<Rightarrow> error + Point" where
  "groupPoint groupPoints =
     (case groupPoints of
        [] \<Rightarrow> Inl TypeError
      | [p] \<Rightarrow> Inr p
      | firstPoint # others \<Rightarrow> Inr (combinedPoint firstPoint others))"

definition commit :: "LabelPlacer \<Rightarrow> LabelBox \<Rightarrow> LabelPlacer" where
  "commit this label =
     this\<lparr>tree := tree this @ [toRTreeBox label 2],
          placedLabels := placedLabels this @ [label]\<rparr>"

text \<open>One turn of the loop over the sorted groups.\<close>

definition placeGroup :: "LabelPlacer \<Rightarrow> Point list \<Rightarrow> error + LabelPlacer" where
  "placeGroup this groupPoints =
     (case groupPoint groupPoints of
        Inl e \<Rightarrow> Inl e
      | Inr pt \<Rightarrow>
          (case placeLabelForPoint this pt of
             Inl e \<Rightarrow> Inl e
           | Inr None \<Rightarrow> Inr this
           | Inr (Some label) \<Rightarrow> Inr (commit this label)))"

fun placeGroups :: "LabelPlacer \<Rightarrow> Point list list \<Rightarrow> error + LabelPlacer" where
  "placeGroups this [] = Inr this"
| "placeGroups this (g # gs) =
     (case placeGroup this g of Inl e \<Rightarrow> Inl e | Inr this' \<Rightarrow> placeGroups this' gs)"

text \<open>
  The pass: it clears the index and the list of placed labels, filters, groups, sorts
  and places. It returns the placed labels together with the placer as the pass leaves
  it, or the exception.
\<close>

definition placeAll :: "LabelPlacer \<Rightarrow> Point list \<Rightarrow> error + (LabelBox list \<times> LabelPlacer)" where
  "placeAll this points =
     (let this0 = this\<lparr>tree := [], placedLabels := []\<rparr>;
          pointsWithLabels = filter hasLabel points
      in case placeGroups this0 (map snd (sortedGroups pointsWithLabels)) of
           Inl e \<Rightarrow> Inl e
         | Inr this' \<Rightarrow> Inr (placedLabels this', this'))"

subsection \<open>Derived notions, used to state the results\<close>

text \<open>
  What the second step takes off the score, and what the fifth step takes off; the score
  of a candidate after both passes; the label returned for a chosen candidate.
\<close>

definition coveredCost :: "LabelPlacer \<Rightarrow> Point \<Rightarrow> Candidate \<Rightarrow> real" where
  "coveredCost this pt c =
     (case p_allPoints pt of None \<Rightarrow> 0 | Some others \<Rightarrow> max 0 (coveredPenalty (options this) pt c others))"

definition outOfBoundsCost :: "LabelPlacer \<Rightarrow> Point \<Rightarrow> Candidate \<Rightarrow> real" where
  "outOfBoundsCost this pt c =
     (if isOutOfBounds (chartSize this) (c_x c) (c_y c) (p_width pt) (p_height pt)
      then outOfBoundsPenalty (options this) else 0)"

text \<open>The value of a score that is finite.\<close>

definition finiteScore :: "Candidate \<Rightarrow> real" where
  "finiteScore c = (case c_score c of Fin s \<Rightarrow> s | _ \<Rightarrow> 0)"

definition finalScore :: "LabelPlacer \<Rightarrow> Point \<Rightarrow> Candidate \<Rightarrow> jsnum" where
  "finalScore this pt c = c_score (applyBoundaryPenalty pt (scoreCandidate this pt c))"

definition labelAt :: "Point \<Rightarrow> Candidate \<Rightarrow> LabelBox" where
  "labelAt pt chosen =
     \<lparr>l_x = c_x chosen, l_y = c_y chosen, l_width = p_width pt, l_height = p_height pt,
      l_rotation = c_rotation chosen, l_text = p_text pt, l_forPoint = pt\<rparr>"

text \<open>The placer with the given labels placed and indexed.\<close>

definition placerWith :: "LabelPlacer \<Rightarrow> LabelBox list \<Rightarrow> LabelPlacer" where
  "placerWith this labels = this\<lparr>tree := map (\<lambda>l. toRTreeBox l 2) labels, placedLabels := labels\<rparr>"

text \<open>
  The trace of a run of the loop: every label it appends was chosen, for the point of one
  of the groups, among the candidates of that point, with a score not at or below the
  threshold, by a placer whose index held exactly the labels placed before it.
\<close>

definition chosenIn :: "LabelPlacer \<Rightarrow> Point list list \<Rightarrow> LabelBox list \<Rightarrow> LabelBox \<Rightarrow> bool" where
  "chosenIn this gs before l =
     (\<exists>g\<in>set gs. \<exists>pt. groupPoint g = Inr pt \<and>
        (\<exists>c\<in>set (generateCandidates (placerWith this before) pt).
           \<not> jle (finalScore (placerWith this before) pt c) (Fin (- 100000)) \<and> l = labelAt pt c))"

subsection \<open>Concrete inputs\<close>

text \<open>
  A chart of 20 by 20 pixels with the default options, and two points that refer to each
  other through \<open>allPoints\<close>. The label of \<open>anchorA\<close> fills the chart but for the margin;
  the label of \<open>anchorB\<close> is larger than the chart.
\<close>

definition chart20 :: LabelPlacer where
  "chart20 = newLabelPlacer \<lparr>cs_width = 20, cs_height = 20\<rparr> noOptions"

definition refsAB :: "PointRef list" where
  "refsAB = [\<lparr>r_ident = 0, r_x = 27, r_y = 10\<rparr>, \<lparr>r_ident = 1, r_x = 10, r_y = 22\<rparr>]"

definition anchorA :: Point where
  "anchorA = \<lparr>p_ident = Some 0, p_x = 27, p_y = 10, p_text = ''A'', p_width = 18, p_height = 18,
              p_allPoints = Some refsAB\<rparr>"

definition anchorB :: Point where
  "anchorB = \<lparr>p_ident = Some 1, p_x = 10, p_y = 22, p_text = ''B'', p_width = 100, p_height = 100,
              p_allPoints = Some refsAB\<rparr>"

definition labelA :: LabelBox where
  "labelA = \<lparr>l_x = 1, l_y = 1, l_width = 18, l_height = 18, l_rotation = 0, l_text = ''A'',
             l_forPoint = anchorA\<rparr>"

text \<open>
  A chart of zero width and height with the default options, and two points on the line
  \<open>y = 0\<close>.
\<close>

definition chartZero :: LabelPlacer where
  "chartZero = newLabelPlacer \<lparr>cs_width = 0, cs_height = 0\<rparr> noOptions"

definition anchorP :: Point where
  "anchorP = \<lparr>p_ident = Some 0, p_x = 7, p_y = 0, p_text = ''P'', p_width = 12, p_height = 2,
              p_allPoints = None\<rparr>"

definition anchorQ :: Point where
  "anchorQ = \<lparr>p_ident = Some 1, p_x = 8, p_y = 0, p_text = ''Q'', p_width = 12, p_height = 2,
              p_allPoints = None\<rparr>"

definition labelP :: LabelBox where
  "labelP = \<lparr>l_x = 13, l_y = - 1, l_width = 12, l_height = 2, l_rotation = 0, l_text = ''P'',
             l_forPoint = anchorP\<rparr>"

definition labelQ :: LabelBox where
  "labelQ = \<lparr>l_x = 14, l_y = - 1, l_width = 12, l_height = 2, l_rotation = 0, l_text = ''Q'',
             l_forPoint = anchorQ\<rparr>"



definition chart4 :: LabelPlacer where
  "chart4 = newLabelPlacer \<lparr>cs_width = 4, cs_height = 4\<rparr> (noOptions\<lparr>o_rings := Some 0\<rparr>)"

definition anchorD :: Point where
  "anchorD = \<lparr>p_ident = Some 0, p_x = 2, p_y = 2, p_text = ''D'', p_width = 2, p_height = 2,
              p_allPoints = None\<rparr>"

definition anchorF :: Point where
  "anchorF = \<lparr>p_ident = Some 1, p_x = 2, p_y = - 20, p_text = ''F'', p_width = 2, p_height = 2,
              p_allPoints = None\<rparr>"

definition labelF :: LabelBox where
  "labelF = \<lparr>l_x = 1, l_y = 1, l_width = 2, l_height = 2, l_rotation = 0, l_text = ''F'',
             l_forPoint = anchorF\<rparr>"

section \<open>Properties\<close>

subsection \<open>Options\<close>

lemmas option_defs = newLabelPlacer_def mergeOptions_def DEFAULT_OPTIONS_def noOptions_def spread_def

text \<open>
  C5, as stated: with the options left out the engine would use \<open>padding = 0\<close>,
  \<open>overlapPenalty = 100000\<close> and \<open>outOfBoundsPenalty = 0\<close>. The options of a placer
  constructed without any option are not these.
\<close>

theorem C5_defaults_counterexample:
  "options (newLabelPlacer \<lparr>cs_width = 100, cs_height = 100\<rparr> noOptions)
   \<noteq> \<lparr>radius = 10, rings = 5, anglesPerRing = 32, padding = 0, overlapPenalty = 100000,
       pointPenalty = 500, outOfBoundsPenalty = 0, idealAngleBonus = 0, debug = False\<rparr>"
  by (simp add: option_defs)

text \<open>
  C5, amended: a placer constructed with the options left out uses \<open>radius = 10\<close>,
  \<open>rings = 5\<close>, \<open>anglesPerRing = 32\<close>, \<open>padding = 4\<close>, \<open>overlapPenalty = 1000\<close>,
  \<open>pointPenalty = 500\<close>, \<open>outOfBoundsPenalty = 300\<close>, \<open>idealAngleBonus = 0\<close> and
  \<open>debug = false\<close>, and each option left out on its own, whatever the others are, falls
  back to its value in this list.
\<close>

theorem C5_defaults:
  "options (newLabelPlacer sz noOptions) =
     \<lparr>radius = 10, rings = 5, anglesPerRing = 32, padding = 4, overlapPenalty = 1000,
      pointPenalty = 500, outOfBoundsPenalty = 300, idealAngleBonus = 0, debug = False\<rparr>
   \<and> radius (options (newLabelPlacer sz (opts\<lparr>o_radius := None\<rparr>))) = 10
   \<and> rings (options (newLabelPlacer sz (opts\<lparr>o_rings := None\<rparr>))) = 5
   \<and> anglesPerRing (options (newLabelPlacer sz (opts\<lparr>o_anglesPerRing := None\<rparr>))) = 32
   \<and> padding (options (newLabelPlacer sz (opts\<lparr>o_padding := None\<rparr>))) = 4
   \<and> overlapPenalty (options (newLabelPlacer sz (opts\<lparr>o_overlapPenalty := None\<rparr>))) = 1000
   \<and> pointPenalty (options (newLabelPlacer sz (opts\<lparr>o_pointPenalty := None\<rparr>))) = 500
   \<and> outOfBoundsPenalty (options (newLabelPlacer sz (opts\<lparr>o_outOfBoundsPenalty := None\<rparr>))) = 300
   \<and> idealAngleBonus (options (newLabelPlacer sz (opts\<lparr>o_idealAngleBonus := None\<rparr>))) = 0
   \<and> debug (options (newLabelPlacer sz (opts\<lparr>o_debug := None\<rparr>))) = False"
  by (simp add: option_defs)

subsection \<open>Arithmetic of scores\<close>

lemma jsub_Fin [simp]: "jsub (Fin a) (Fin b) = Fin (a - b)"
  by (simp add: jsub_def)

lemma jsub_NegInf_Fin [simp]: "jsub NegInf (Fin b) = NegInf"
  by (simp add: jsub_def)

lemma jsub_NaN [simp]: "jsub NaN b = NaN"
  by (simp add: jsub_def)

lemma jsqrt_sum_squares: "jsqrt (Fin (a * a + b * b)) = Fin (sqrt (a * a + b * b))"
proof -
  have "0 \<le> a * a + b * b" by simp
  then show ?thesis by (simp add: not_less)
qed

lemma centerBonus_finite:
  assumes "cs_width sz \<noteq> 0" and "cs_height sz \<noteq> 0"
  shows "\<exists>b. centerBonus sz u v = Fin b \<and> b \<le> 10"
proof -
  define a where "a = (u - cs_width sz / 2) / (cs_width sz / 2)"
  define b where "b = (v - cs_height sz / 2) / (cs_height sz / 2)"
  have dx: "jdiv (Fin (u - cs_width sz / 2)) (Fin (cs_width sz / 2)) = Fin a"
    using assms(1) by (simp add: a_def)
  have dy: "jdiv (Fin (v - cs_height sz / 2)) (Fin (cs_height sz / 2)) = Fin b"
    using assms(2) by (simp add: b_def)
  have "centerBonus sz u v = Fin ((1 - sqrt (a * a + b * b) / sqrt 2) * 10)"
    unfolding centerBonus_def Let_def dx dy by (simp add: jsqrt_sum_squares del: jsqrt.simps)
  moreover have "0 \<le> sqrt (a * a + b * b) / sqrt 2" by simp
  ultimately show ?thesis by (intro exI[of _ "(1 - sqrt (a * a + b * b) / sqrt 2) * 10"]) simp
qed

lemma centerBonus_degenerate:
  assumes "cs_width sz = 0 \<or> cs_height sz = 0"
  shows "centerBonus sz u v =
     (if (cs_width sz = 0 \<and> u = 0) \<or> (cs_height sz = 0 \<and> v = 0) then NaN else NegInf)"
  using assms by (auto simp: centerBonus_def Let_def jsub_def)




lemma overlapStep_Fin:
  "overlapStep this pt c (Fin a) = Fin (a - 100000 * real (length (collisions this pt c)))"
  by (simp add: overlapStep_def)

lemma pointStep_Fin: "pointStep this pt c (Fin a) = Fin (a - coveredCost this pt c)"
  by (simp add: pointStep_def coveredCost_def Let_def max_def split: option.splits)

lemma borderStep_Fin: "\<exists>bp\<ge>0. \<forall>a. borderStep sz u v (Fin a) = Fin (a - bp)"
proof (cases "min (min u (cs_width sz - u)) (min v (cs_height sz - v)) < 10")
  case True
  then show ?thesis
    by (intro exI[of _ "((10 - min (min u (cs_width sz - u)) (min v (cs_height sz - v))) / 10)\<^sup>2 * 100"])
       (simp add: borderStep_def Let_def)
next
  case False
  then show ?thesis by (intro exI[of _ 0]) (simp add: borderStep_def Let_def)
qed

lemma outOfBoundsStep_Fin: "outOfBoundsStep this pt c (Fin a) = Fin (a - outOfBoundsCost this pt c)"
  by (simp add: outOfBoundsStep_def outOfBoundsCost_def)

lemma distanceStep_Fin:
  "distanceStep pt (c_x c + p_width pt / 2) (c_y c + p_height pt / 2) (Fin a)
     = Fin (a - 10 * distanceToPoint pt (c_x c) (c_y c))"
  by (simp add: distanceStep_def distanceToPoint_def Let_def)

lemma score_finite:
  assumes "cs_width (chartSize this) \<noteq> 0" and "cs_height (chartSize this) \<noteq> 0"
  shows "\<exists>s. c_score (scoreCandidate this pt c) = Fin s \<and>
             s \<le> 10 - 10 * distanceToPoint pt (c_x c) (c_y c)
                  - 100000 * real (length (collisions this pt c))
                  - coveredCost this pt c - outOfBoundsCost this pt c"
proof -
  obtain b where b: "centerBonus (chartSize this) (c_x c + p_width pt / 2) (c_y c + p_height pt / 2) = Fin b"
    and b10: "b \<le> 10"
    using centerBonus_finite[OF assms] by blast
  obtain bp where bp: "0 \<le> bp"
    and bs: "\<And>a. borderStep (chartSize this) (c_x c + p_width pt / 2) (c_y c + p_height pt / 2) (Fin a)
             = Fin (a - bp)"
    using borderStep_Fin by blast
  have "c_score (scoreCandidate this pt c)
        = Fin (0 - 100000 * real (length (collisions this pt c)) - coveredCost this pt c - bp + b
               - outOfBoundsCost this pt c - 10 * distanceToPoint pt (c_x c) (c_y c))"
    unfolding scoreCandidate_def Let_def
    by (simp add: overlapStep_Fin pointStep_Fin bs b outOfBoundsStep_Fin distanceStep_Fin)
  then show ?thesis using bp b10 by auto
qed

lemma step_NegInf:
  "outOfBoundsStep this pt c NegInf = NegInf" "distanceStep pt u v NegInf = NegInf"
  by (simp_all add: outOfBoundsStep_def distanceStep_def Let_def)

lemma step_NaN:
  "outOfBoundsStep this pt c NaN = NaN" "distanceStep pt u v NaN = NaN"
  by (simp_all add: outOfBoundsStep_def distanceStep_def Let_def)

lemma score_degenerate:
  assumes "cs_width (chartSize this) = 0 \<or> cs_height (chartSize this) = 0"
  shows "c_score (scoreCandidate this pt c) =
           centerBonus (chartSize this) (c_x c + p_width pt / 2) (c_y c + p_height pt / 2)"
proof -
  obtain bp where bs: "\<And>a. borderStep (chartSize this) (c_x c + p_width pt / 2) (c_y c + p_height pt / 2) (Fin a)
             = Fin (a - bp)"
    using borderStep_Fin by blast
  have cb: "centerBonus (chartSize this) (c_x c + p_width pt / 2) (c_y c + p_height pt / 2) = NaN
        \<or> centerBonus (chartSize this) (c_x c + p_width pt / 2) (c_y c + p_height pt / 2) = NegInf"
    using centerBonus_degenerate[OF assms] by presburger
  then show ?thesis
    unfolding scoreCandidate_def Let_def
    by (auto simp: overlapStep_Fin pointStep_Fin bs step_NegInf step_NaN)
qed

subsection \<open>The sort\<close>

lemma set_insort_js [simp]: "set (insort_js cmp a xs) = insert a (set xs)"
  by (induction xs) auto

lemma length_insort_js [simp]: "length (insort_js cmp a xs) = Suc (length xs)"
  by (induction xs) auto

lemma sort_js_Nil [simp]: "sort_js cmp [] = []"
  by (simp add: sort_js_def)

lemma sort_js_Cons: "sort_js cmp (x # xs) = insort_js cmp x (sort_js cmp xs)"
  by (simp add: sort_js_def)

lemma set_sort_js [simp]: "set (sort_js cmp xs) = set xs"
  by (induction xs) (auto simp: sort_js_Cons)

lemma length_sort_js [simp]: "length (sort_js cmp xs) = length xs"
  by (induction xs) (auto simp: sort_js_Cons)

lemma sort_js_eq_Nil [simp]: "sort_js cmp xs = [] \<longleftrightarrow> xs = []"
  using length_sort_js[of cmp xs] by (metis length_0_conv)

lemma distinct_map_insort_js:
  "distinct (map f (insort_js cmp a xs)) \<longleftrightarrow> f a \<notin> f ` set xs \<and> distinct (map f xs)"
  by (induction xs) auto

lemma distinct_map_sort_js [simp]: "distinct (map f (sort_js cmp xs)) \<longleftrightarrow> distinct (map f xs)"
  by (induction xs) (auto simp: sort_js_Cons distinct_map_insort_js)

lemma hd_insort_js:
  "hd (insort_js cmp a xs) = (if xs \<noteq> [] \<and> jgt (cmp a (hd xs)) (Fin 0) then hd xs else a)"
  by (cases xs) auto

lemma sort_js_unordered:
  assumes "\<forall>a\<in>set xs. \<forall>b\<in>set xs. \<not> jgt (cmp a b) (Fin 0)"
  shows "sort_js cmp xs = xs"
  using assms
proof (induction xs)
  case Nil
  then show ?case by simp
next
  case (Cons x xs)
  then have "sort_js cmp xs = xs" by simp
  moreover have "insort_js cmp x xs = x # xs"
    using Cons.prems by (cases xs) auto
  ultimately show ?case by (simp add: sort_js_Cons)
qed

lemma hd_sort_js_key:
  assumes "xs \<noteq> []" and "\<forall>a\<in>set xs. \<forall>b\<in>set xs. cmp a b = Fin (k b - k a)"
  shows "\<exists>i<length xs. hd (sort_js cmp xs) = xs ! i \<and> (\<forall>j<length xs. k (xs ! j) \<le> k (xs ! i))
            \<and> (\<forall>j<i. k (xs ! j) < k (xs ! i))"
  using assms
proof (induction xs)
  case Nil
  then show ?case by simp
next
  case (Cons x xs)
  show ?case
  proof (cases "xs = []")
    case True
    then show ?thesis by (simp add: sort_js_Cons)
  next
    case False
    with Cons obtain i where i: "i < length xs" "hd (sort_js cmp xs) = xs ! i"
      "\<forall>j<length xs. k (xs ! j) \<le> k (xs ! i)" "\<forall>j<i. k (xs ! j) < k (xs ! i)"
      by auto
    have cmp: "cmp x (xs ! i) = Fin (k (xs ! i) - k x)"
      using Cons.prems(2) i(1) by simp
    have hd: "hd (sort_js cmp (x # xs)) = (if k (xs ! i) > k x then xs ! i else x)"
      using False i(2) cmp by (simp add: sort_js_Cons hd_insort_js)
    show ?thesis
    proof (cases "k (xs ! i) > k x")
      case True
      have "\<forall>j<length (x # xs). k ((x # xs) ! j) \<le> k ((x # xs) ! Suc i)"
        using True i(3) by (auto simp: nth_Cons split: nat.splits)
      moreover have "\<forall>j<Suc i. k ((x # xs) ! j) < k ((x # xs) ! Suc i)"
        using True i(4) by (auto simp: nth_Cons split: nat.splits)
      ultimately show ?thesis
        using hd True i(1) by (intro exI[of _ "Suc i"]) simp
    next
      case False
      have "\<forall>j<length (x # xs). k ((x # xs) ! j) \<le> k ((x # xs) ! 0)"
        using False i(1,3) by (auto simp: nth_Cons split: nat.splits)
      then show ?thesis
        using hd False by (intro exI[of _ 0]) simp
    qed
  qed
qed

subsection \<open>The candidate chosen for a point\<close>

lemma scoreCandidate_position [simp]:
  "c_x (scoreCandidate this pt c) = c_x c" "c_y (scoreCandidate this pt c) = c_y c"
  "c_rotation (scoreCandidate this pt c) = c_rotation c"
  by (simp_all add: scoreCandidate_def Let_def)

lemma applyBoundaryPenalty_position [simp]:
  "c_x (applyBoundaryPenalty pt c) = c_x c" "c_y (applyBoundaryPenalty pt c) = c_y c"
  "c_rotation (applyBoundaryPenalty pt c) = c_rotation c"
  by (simp_all add: applyBoundaryPenalty_def)

lemma forbidden_scoreCandidate [simp]:
  "overlapsExclusionZone pt (scoreCandidate this pt c) = overlapsExclusionZone pt c"
  "violatesBoundary pt (scoreCandidate this pt c) = violatesBoundary pt c"
  by (simp_all add: overlapsExclusionZone_def violatesBoundary_def)

lemma labelAt_scored [simp]:
  "labelAt pt (applyBoundaryPenalty pt (scoreCandidate this pt c)) = labelAt pt c"
  by (simp add: labelAt_def)

lemma finalScore_finite:
  assumes "cs_width (chartSize this) \<noteq> 0" and "cs_height (chartSize this) \<noteq> 0"
  shows "\<exists>s. finalScore this pt c = Fin s \<and>
             s \<le> 10 - 10 * distanceToPoint pt (c_x c) (c_y c)
                  - 100000 * real (length (collisions this pt c))
                  - coveredCost this pt c - outOfBoundsCost this pt c
                  - (if overlapsExclusionZone pt c \<or> violatesBoundary pt c then 100000 else 0)"
proof -
  obtain s where "c_score (scoreCandidate this pt c) = Fin s"
    "s \<le> 10 - 10 * distanceToPoint pt (c_x c) (c_y c)
                  - 100000 * real (length (collisions this pt c))
                  - coveredCost this pt c - outOfBoundsCost this pt c"
    using score_finite[OF assms] by blast
  then show ?thesis
    by (auto simp: finalScore_def applyBoundaryPenalty_def)
qed

lemma finalScore_degenerate:
  assumes "cs_width (chartSize this) = 0 \<or> cs_height (chartSize this) = 0"
  shows "finalScore this pt c =
     (if (cs_width (chartSize this) = 0 \<and> c_x c + p_width pt / 2 = 0)
         \<or> (cs_height (chartSize this) = 0 \<and> c_y c + p_height pt / 2 = 0) then NaN else NegInf)"
  using score_degenerate[OF assms, of pt c] centerBonus_degenerate[OF assms]
  by (auto simp: finalScore_def applyBoundaryPenalty_def)

lemma scoredCandidates_map:
  "scoredCandidates this pt = map (\<lambda>c. applyBoundaryPenalty pt (scoreCandidate this pt c)) (generateCandidates this pt)"
  by (simp add: scoredCandidates_def)

lemma scoredCandidates_nth:
  "i < length (generateCandidates this pt) \<Longrightarrow>
   c_score (scoredCandidates this pt ! i) = finalScore this pt (generateCandidates this pt ! i)
   \<and> labelAt pt (scoredCandidates this pt ! i) = labelAt pt (generateCandidates this pt ! i)"
  by (simp add: scoredCandidates_map finalScore_def)

text \<open>The scores of one point's candidates are all finite or all not.\<close>

lemma scores_uniform:
  "(\<forall>c. \<exists>s. finalScore this pt c = Fin s) \<or> (\<forall>c. finalScore this pt c = NaN \<or> finalScore this pt c = NegInf)"
proof (cases "cs_width (chartSize this) = 0 \<or> cs_height (chartSize this) = 0")
  case True
  then show ?thesis using finalScore_degenerate[OF True] by simp
next
  case False
  then show ?thesis using finalScore_finite[of this] by blast
qed



lemma jgt_NegInf [simp]: "jgt NegInf b = False"
  by (cases b) simp_all

lemma byScoreDescending_Fin:
  "c_score a = Fin s \<Longrightarrow> c_score b = Fin t \<Longrightarrow> byScoreDescending a b = Fin (finiteScore b - finiteScore a)"
  by (simp add: byScoreDescending_def finiteScore_def)

lemma byScoreDescending_degenerate:
  "c_score a = NaN \<or> c_score a = NegInf \<Longrightarrow> c_score b = NaN \<or> c_score b = NegInf
   \<Longrightarrow> \<not> jgt (byScoreDescending a b) (Fin 0)"
  by (auto simp: byScoreDescending_def jsub_def)

lemma chosen_candidate:
  assumes "generateCandidates this pt \<noteq> []"
  shows "\<exists>i<length (generateCandidates this pt).
           hd (sort_js byScoreDescending (scoredCandidates this pt)) = scoredCandidates this pt ! i
         \<and> (\<forall>j<length (generateCandidates this pt).
               \<not> jgt (finalScore this pt (generateCandidates this pt ! j))
                      (finalScore this pt (generateCandidates this pt ! i)))
         \<and> (\<forall>j<i. jgt (finalScore this pt (generateCandidates this pt ! i))
                       (finalScore this pt (generateCandidates this pt ! j)))"
proof -
  let ?cs = "generateCandidates this pt"
  let ?sc = "scoredCandidates this pt"
  have len: "length ?sc = length ?cs" by (simp add: scoredCandidates_map)
  have ne: "?sc \<noteq> []" using assms by (simp add: scoredCandidates_map)
  have sc: "c_score (?sc ! j) = finalScore this pt (?cs ! j)" if "j < length ?cs" for j
    using scoredCandidates_nth[OF that] by simp
  from scores_uniform[of this pt] show ?thesis
  proof
    assume fin: "\<forall>c. \<exists>s. finalScore this pt c = Fin s"
    have "\<forall>a\<in>set ?sc. \<exists>s. c_score a = Fin s"
      using fin by (auto simp: scoredCandidates_map finalScore_def)
    then have "\<forall>a\<in>set ?sc. \<forall>b\<in>set ?sc. byScoreDescending a b = Fin (finiteScore b - finiteScore a)"
      using byScoreDescending_Fin by blast
    from hd_sort_js_key[OF ne this] obtain i where i: "i < length ?sc"
      "hd (sort_js byScoreDescending ?sc) = ?sc ! i"
      "\<forall>j<length ?sc. finiteScore (?sc ! j) \<le> finiteScore (?sc ! i)"
      "\<forall>j<i. finiteScore (?sc ! j) < finiteScore (?sc ! i)"
      by blast
    have fs: "finalScore this pt (?cs ! j) = Fin (finiteScore (?sc ! j))" if "j < length ?cs" for j
    proof -
      obtain s where s: "finalScore this pt (?cs ! j) = Fin s" using fin by blast
      then have "c_score (?sc ! j) = Fin s" using sc[OF that] by simp
      then have "finiteScore (?sc ! j) = s" by (simp add: finiteScore_def)
      with s show ?thesis by simp
    qed
    have il: "i < length ?cs" using i(1) len by simp
    have "\<not> jgt (finalScore this pt (?cs ! j)) (finalScore this pt (?cs ! i))" if "j < length ?cs" for j
      using i(3) that len by (simp add: fs[OF that] fs[OF il] not_less)
    moreover have "jgt (finalScore this pt (?cs ! i)) (finalScore this pt (?cs ! j))" if "j < i" for j
    proof -
      have jl: "j < length ?cs" using that il by simp
      show ?thesis using i(4) that by (simp add: fs[OF jl] fs[OF il])
    qed
    ultimately show ?thesis using il i(2) by blast
  next
    assume deg: "\<forall>c. finalScore this pt c = NaN \<or> finalScore this pt c = NegInf"
    have "\<forall>a\<in>set ?sc. c_score a = NaN \<or> c_score a = NegInf"
      using deg by (auto simp: scoredCandidates_map finalScore_def)
    then have "\<forall>a\<in>set ?sc. \<forall>b\<in>set ?sc. \<not> jgt (byScoreDescending a b) (Fin 0)"
      using byScoreDescending_degenerate by blast
    then have "sort_js byScoreDescending ?sc = ?sc" by (rule sort_js_unordered)
    then have "hd (sort_js byScoreDescending ?sc) = ?sc ! 0"
      using ne by (simp add: hd_conv_nth)
    moreover have "\<not> jgt (finalScore this pt a) (finalScore this pt b)" for a b
      using deg[rule_format, of a] by auto
    ultimately show ?thesis using assms by (intro exI[of _ 0]) simp
  qed
qed

lemma placeLabelForPoint_empty:
  "generateCandidates this pt = [] \<Longrightarrow> placeLabelForPoint this pt = Inl TypeError"
  by (simp add: placeLabelForPoint_def scoredCandidates_map)

lemma placeLabelForPoint_chosen:
  assumes "generateCandidates this pt \<noteq> []"
  shows "\<exists>i<length (generateCandidates this pt).
         (\<forall>j<length (generateCandidates this pt).
               \<not> jgt (finalScore this pt (generateCandidates this pt ! j))
                      (finalScore this pt (generateCandidates this pt ! i)))
         \<and> (\<forall>j<i. jgt (finalScore this pt (generateCandidates this pt ! i))
                       (finalScore this pt (generateCandidates this pt ! j)))
         \<and> placeLabelForPoint this pt =
             (if jle (finalScore this pt (generateCandidates this pt ! i)) (Fin (- 100000))
              then Inr None else Inr (Some (labelAt pt (generateCandidates this pt ! i))))"
proof -
  from chosen_candidate[OF assms] obtain i where i: "i < length (generateCandidates this pt)"
    "hd (sort_js byScoreDescending (scoredCandidates this pt)) = scoredCandidates this pt ! i"
    "\<forall>j<length (generateCandidates this pt).
               \<not> jgt (finalScore this pt (generateCandidates this pt ! j))
                      (finalScore this pt (generateCandidates this pt ! i))"
    "\<forall>j<i. jgt (finalScore this pt (generateCandidates this pt ! i))
                       (finalScore this pt (generateCandidates this pt ! j))"
    by blast
  have "sort_js byScoreDescending (scoredCandidates this pt) \<noteq> []"
    using assms by (simp add: scoredCandidates_map)
  then obtain rest where "sort_js byScoreDescending (scoredCandidates this pt) = (scoredCandidates this pt ! i) # rest"
    using i(2) by (cases "sort_js byScoreDescending (scoredCandidates this pt)") auto
  then have "placeLabelForPoint this pt =
             (if jle (finalScore this pt (generateCandidates this pt ! i)) (Fin (- 100000))
              then Inr None else Inr (Some (labelAt pt (generateCandidates this pt ! i))))"
    using scoredCandidates_nth[OF i(1)]
    by (simp add: placeLabelForPoint_def labelAt_def)
  then show ?thesis using i(1,3,4) by blast
qed

subsection \<open>The trace of a pass\<close>

lemma commit_simps [simp]:
  "tree (commit this l) = tree this @ [toRTreeBox l 2]"
  "placedLabels (commit this l) = placedLabels this @ [l]"
  "chartSize (commit this l) = chartSize this"
  "options (commit this l) = options this"
  by (simp_all add: commit_def)

lemma placerWith_simps [simp]:
  "tree (placerWith this ls) = map (\<lambda>l. toRTreeBox l 2) ls"
  "placedLabels (placerWith this ls) = ls"
  "chartSize (placerWith this ls) = chartSize this"
  "options (placerWith this ls) = options this"
  "placerWith (placerWith this ls) ms = placerWith this ms"
  "placerWith (commit this l) ms = placerWith this ms"
  "placerWith (this\<lparr>tree := t, placedLabels := p\<rparr>) ms = placerWith this ms"
  by (simp_all add: placerWith_def commit_def)

lemma placerWith_self:
  "tree this = map (\<lambda>l. toRTreeBox l 2) (placedLabels this) \<Longrightarrow> placerWith this (placedLabels this) = this"
  by (simp add: placerWith_def)

lemma placeLabelForPoint_Some:
  assumes "placeLabelForPoint this pt = Inr (Some l)"
  shows "\<exists>c\<in>set (generateCandidates this pt). l = labelAt pt c \<and> \<not> jle (finalScore this pt c) (Fin (- 100000))"
proof (cases "generateCandidates this pt = []")
  case True
  then show ?thesis using assms by (simp add: placeLabelForPoint_empty)
next
  case False
  from placeLabelForPoint_chosen[OF False] obtain i where
    i: "i < length (generateCandidates this pt)"
    and r: "placeLabelForPoint this pt =
             (if jle (finalScore this pt (generateCandidates this pt ! i)) (Fin (- 100000))
              then Inr None else Inr (Some (labelAt pt (generateCandidates this pt ! i))))"
    by blast
  from r assms have "\<not> jle (finalScore this pt (generateCandidates this pt ! i)) (Fin (- 100000))"
    and "l = labelAt pt (generateCandidates this pt ! i)"
    by (auto split: if_splits)
  then show ?thesis using i nth_mem by blast
qed

lemma placeGroup_cases:
  assumes "placeGroup this g = Inr this'"
  shows "this' = this \<or>
         (\<exists>pt. groupPoint g = Inr pt \<and>
            (\<exists>c\<in>set (generateCandidates this pt).
               \<not> jle (finalScore this pt c) (Fin (- 100000)) \<and> this' = commit this (labelAt pt c)))"
proof -
  from assms obtain pt where pt: "groupPoint g = Inr pt"
    by (auto simp: placeGroup_def split: sum.splits)
  from assms pt obtain r where r: "placeLabelForPoint this pt = Inr r"
    by (auto simp: placeGroup_def split: sum.splits)
  show ?thesis
  proof (cases r)
    case None
    then show ?thesis using assms pt r by (simp add: placeGroup_def)
  next
    case (Some l)
    with r placeLabelForPoint_Some obtain c where "c \<in> set (generateCandidates this pt)"
      "l = labelAt pt c" "\<not> jle (finalScore this pt c) (Fin (- 100000))" by blast
    moreover have "this' = commit this l" using assms pt r Some by (simp add: placeGroup_def)
    ultimately show ?thesis using pt by blast
  qed
qed



lemma chosenIn_mono: "chosenIn this gs before l \<Longrightarrow> set gs \<subseteq> set hs \<Longrightarrow> chosenIn this hs before l"
  unfolding chosenIn_def by blast

lemma placeGroups_trace:
  assumes "placeGroups th gs = Inr th'"
    and "tree th = map (\<lambda>l. toRTreeBox l 2) (placedLabels th)"
  shows "\<exists>ls. placedLabels th' = placedLabels th @ ls
            \<and> tree th' = map (\<lambda>l. toRTreeBox l 2) (placedLabels th')
            \<and> chartSize th' = chartSize th \<and> options th' = options th
            \<and> length ls \<le> length gs
            \<and> (\<forall>n<length ls. chosenIn th gs (placedLabels th @ take n ls) (ls ! n))"
  using assms
proof (induction gs arbitrary: th)
  case Nil
  then show ?case by simp
next
  case (Cons g gs)
  from Cons.prems(1) obtain th1 where th1: "placeGroup th g = Inr th1" and rest: "placeGroups th1 gs = Inr th'"
    by (auto split: sum.splits)
  from placeGroup_cases[OF th1] show ?case
  proof
    assume "th1 = th"
    with rest Cons.IH[OF _ Cons.prems(2)] obtain ls where ls: "placedLabels th' = placedLabels th @ ls"
      "tree th' = map (\<lambda>l. toRTreeBox l 2) (placedLabels th')"
      "chartSize th' = chartSize th" "options th' = options th" "length ls \<le> length gs"
      "\<forall>n<length ls. chosenIn th gs (placedLabels th @ take n ls) (ls ! n)"
      by blast
    have "\<forall>n<length ls. chosenIn th (g # gs) (placedLabels th @ take n ls) (ls ! n)"
      using ls(6) chosenIn_mono[where hs = "g # gs" and gs = gs] by auto
    with ls show ?thesis by (intro exI[of _ ls]) simp
  next
    assume "\<exists>pt. groupPoint g = Inr pt \<and>
            (\<exists>c\<in>set (generateCandidates th pt).
               \<not> jle (finalScore th pt c) (Fin (- 100000)) \<and> th1 = commit th (labelAt pt c))"
    then obtain pt c where pt: "groupPoint g = Inr pt" and c: "c \<in> set (generateCandidates th pt)"
      and sc: "\<not> jle (finalScore th pt c) (Fin (- 100000))" and th1c: "th1 = commit th (labelAt pt c)"
      by blast
    let ?l = "labelAt pt c"
    have t1: "tree th1 = map (\<lambda>l. toRTreeBox l 2) (placedLabels th1)"
      using th1c Cons.prems(2) by simp
    from Cons.IH[OF rest t1] obtain ls where ls: "placedLabels th' = placedLabels th1 @ ls"
      "tree th' = map (\<lambda>l. toRTreeBox l 2) (placedLabels th')"
      "chartSize th' = chartSize th1" "options th' = options th1" "length ls \<le> length gs"
      "\<forall>n<length ls. chosenIn th1 gs (placedLabels th1 @ take n ls) (ls ! n)"
      by blast
    have first: "chosenIn th (g # gs) (placedLabels th) ?l"
      unfolding chosenIn_def using pt c sc placerWith_self[OF Cons.prems(2)] by auto
    have later: "chosenIn th (g # gs) (placedLabels th @ ?l # take n ls) (ls ! n)" if "n < length ls" for n
    proof -
      have "chosenIn th1 gs (placedLabels th1 @ take n ls) (ls ! n)" using ls(6) that by simp
      then have "chosenIn th gs (placedLabels th @ ?l # take n ls) (ls ! n)"
        unfolding chosenIn_def th1c by simp
      then show ?thesis using chosenIn_mono[where hs = "g # gs" and gs = gs] by auto
    qed
    have "\<forall>n<length (?l # ls). chosenIn th (g # gs) (placedLabels th @ take n (?l # ls)) ((?l # ls) ! n)"
    proof (intro allI impI)
      fix n assume "n < length (?l # ls)"
      then show "chosenIn th (g # gs) (placedLabels th @ take n (?l # ls)) ((?l # ls) ! n)"
        using first later by (cases n) auto
    qed
    with ls th1c show ?thesis by (intro exI[of _ "?l # ls"]) simp
  qed
qed

lemma placeAll_trace:
  assumes "placeAll this points = Inr (out, this')"
  shows "placedLabels this' = out \<and> tree this' = map (\<lambda>l. toRTreeBox l 2) out
         \<and> chartSize this' = chartSize this \<and> options this' = options this
         \<and> length out \<le> length (sortedGroups (filter hasLabel points))
         \<and> (\<forall>n<length out. chosenIn this (map snd (sortedGroups (filter hasLabel points))) (take n out) (out ! n))"
proof -
  let ?th = "this\<lparr>tree := [], placedLabels := []\<rparr>"
  let ?gs = "map snd (sortedGroups (filter hasLabel points))"
  from assms have run: "placeGroups ?th ?gs = Inr this'" and out: "out = placedLabels this'"
    by (auto simp: placeAll_def Let_def split: sum.splits)
  have "tree ?th = map (\<lambda>l. toRTreeBox l 2) (placedLabels ?th)" by simp
  from placeGroups_trace[OF run this] obtain ls where ls: "placedLabels this' = ls"
      "tree this' = map (\<lambda>l. toRTreeBox l 2) (placedLabels this')"
      "chartSize this' = chartSize this" "options this' = options this" "length ls \<le> length ?gs"
      "\<forall>n<length ls. chosenIn ?th ?gs (take n ls) (ls ! n)"
    by auto
  have "chosenIn ?th ?gs before l = chosenIn this ?gs before l" for before l
    by (simp add: chosenIn_def)
  with ls out show ?thesis by simp
qed

subsection \<open>Candidates keep their centre off the exclusion disk\<close>

lemma ring_distance: "sqrt ((r * cos a)\<^sup>2 + (r * sin a)\<^sup>2) = \<bar>r\<bar>"
proof -
  have "(r * cos a)\<^sup>2 + (r * sin a)\<^sup>2 = r\<^sup>2 * ((sin a)\<^sup>2 + (cos a)\<^sup>2)"
    by (simp only: power_mult_distrib distrib_left add.commute)
  also have "\<dots> = r\<^sup>2" by simp
  finally show ?thesis by simp
qed

lemma ringCandidate_distance:
  "distanceToPoint pt (c_x (ringCandidate pt r a)) (c_y (ringCandidate pt r a)) = \<bar>r\<bar>"
  using ring_distance[of r a] by (simp add: distanceToPoint_def ringCandidate_def mkCandidate_def)

lemma pushed_distance:
  "c \<in> set (pushIfFarEnough pt pos) \<Longrightarrow> exclusionRadius \<le> distanceToPoint pt (c_x c) (c_y c)"
  by (simp add: pushIfFarEnough_def mkCandidate_def split: if_split_asm)

lemma primary_distance:
  "c \<in> set (primaryCandidate sz pt i) \<Longrightarrow> exclusionRadius \<le> distanceToPoint pt (c_x c) (c_y c)"
  unfolding primaryCandidate_def by (rule pushed_distance)

lemma expanding_distance:
  "c \<in> set (expandingCandidate sz pt r n i) \<Longrightarrow> exclusionRadius \<le> distanceToPoint pt (c_x c) (c_y c)"
  unfolding expandingCandidate_def by (rule pushed_distance)

lemma fallback_distance:
  "c \<in> set (fallbackRing opts pt ring) \<Longrightarrow> exclusionRadius \<le> distanceToPoint pt (c_x c) (c_y c)"
  by (auto simp: fallbackRing_def Let_def ringCandidate_distance exclusionRadius_def)

lemma halfStep_distance:
  "c \<in> set (halfStepRing opts pt ring) \<Longrightarrow> exclusionRadius \<le> distanceToPoint pt (c_x c) (c_y c)"
  by (auto simp: halfStepRing_def Let_def ringCandidate_distance exclusionRadius_def)

text \<open>
  In exact arithmetic every candidate keeps the centre of its box at least 7 pixels from
  the point: the clamped candidates of the first two loops are tested, the candidates of
  the last two loops lie on a circle of radius at least 7. This is a fact of the model
  over the reals, where the distance of a ring candidate is exactly the radius of its
  ring. The program computes with doubles and pushes the candidates of the last two loops
  without the test; on a ring of radius exactly 7 the rounding of the cosine, the sine,
  the products and the sums can leave a centre a few units in the last place nearer than
  7. The lemma says nothing about that.
\<close>

lemma candidate_distance:
  "c \<in> set (generateCandidates this pt) \<Longrightarrow> exclusionRadius \<le> distanceToPoint pt (c_x c) (c_y c)"
  by (auto simp: generateCandidates_def Let_def expandingRing_def
           dest: primary_distance expanding_distance fallback_distance halfStep_distance)

text \<open>The first candidate of the first fallback ring, when there is one.\<close>

lemma first_fallback_candidate:
  assumes "0 < rings (options this)" and "0 < anglesPerRing (options this)"
  shows "ringCandidate pt (exclusionRadius + 5) 0 \<in> set (generateCandidates this pt)"
proof -
  have "ringCandidate pt (exclusionRadius + 5) 0 \<in> set (fallbackRing (options this) pt 1)"
    using assms(2) by (auto simp: fallbackRing_def Let_def image_iff intro!: bexI[where x = "0::nat"])
  moreover have "(1::nat) \<in> set [1..<Suc (nat (rings (options this)))]"
    using assms(1) by (simp, arith)
  ultimately show ?thesis
    unfolding generateCandidates_def Let_def set_append set_concat set_map by blast
qed

subsection \<open>What a committed candidate satisfies\<close>

lemma coveredCost_nonneg: "0 \<le> coveredCost this pt c"
  by (simp add: coveredCost_def split: option.splits)

lemma outOfBoundsCost_nonneg: "0 \<le> outOfBoundsPenalty (options this) \<Longrightarrow> 0 \<le> outOfBoundsCost this pt c"
  by (simp add: outOfBoundsCost_def)

text \<open>
  On a chart of non-zero width and height, with a non-negative \<open>outOfBoundsPenalty\<close>,
  the score of a candidate is at most \<open>-60\<close>, less 100000 for every collision and for a
  violation of the exclusion zone, less the cost of the points covered.
\<close>

lemma finalScore_bound:
  assumes "cs_width (chartSize this) \<noteq> 0" and "cs_height (chartSize this) \<noteq> 0"
    and "0 \<le> outOfBoundsPenalty (options this)"
    and "c \<in> set (generateCandidates this pt)"
  shows "\<exists>s. finalScore this pt c = Fin s \<and>
             s \<le> - 60 - 100000 * real (length (collisions this pt c)) - coveredCost this pt c
                  - (if overlapsExclusionZone pt c \<or> violatesBoundary pt c then 100000 else 0)"
proof -
  from finalScore_finite[OF assms(1,2)] obtain s where s: "finalScore this pt c = Fin s"
    "s \<le> 10 - 10 * distanceToPoint pt (c_x c) (c_y c)
                  - 100000 * real (length (collisions this pt c))
                  - coveredCost this pt c - outOfBoundsCost this pt c
                  - (if overlapsExclusionZone pt c \<or> violatesBoundary pt c then 100000 else 0)"
    by blast
  have "7 \<le> distanceToPoint pt (c_x c) (c_y c)"
    using candidate_distance[OF assms(4)] by (simp add: exclusionRadius_def)
  with s outOfBoundsCost_nonneg[OF assms(3), of pt c] show ?thesis
    by (intro exI[of _ s]) auto
qed

lemma committed_clean:
  assumes "cs_width (chartSize this) \<noteq> 0" and "cs_height (chartSize this) \<noteq> 0"
    and "0 \<le> outOfBoundsPenalty (options this)"
    and "c \<in> set (generateCandidates this pt)"
    and "\<not> jle (finalScore this pt c) (Fin (- 100000))"
  shows "collisions this pt c = [] \<and> \<not> overlapsExclusionZone pt c \<and> \<not> violatesBoundary pt c
         \<and> coveredCost this pt c < 99940"
proof -
  from finalScore_bound[OF assms(1-4)] obtain s where s: "finalScore this pt c = Fin s"
    "s \<le> - 60 - 100000 * real (length (collisions this pt c)) - coveredCost this pt c
                  - (if overlapsExclusionZone pt c \<or> violatesBoundary pt c then 100000 else 0)"
    by blast
  from assms(5) s(1) have gt: "- 100000 < s" by simp
  have cc: "0 \<le> coveredCost this pt c" by (rule coveredCost_nonneg)
  have "collisions this pt c = []"
  proof (rule ccontr)
    assume "collisions this pt c \<noteq> []"
    then have "1 \<le> real (length (collisions this pt c))" by (cases "collisions this pt c") auto
    with s(2) gt cc show False by (auto split: if_splits)
  qed
  moreover have "\<not> (overlapsExclusionZone pt c \<or> violatesBoundary pt c)"
    using s(2) gt cc by (auto split: if_splits)
  moreover have "coveredCost this pt c < 99940"
    using s(2) gt by (auto split: if_splits)
  ultimately show ?thesis by blast
qed

lemma rejected_dropped:
  assumes "cs_width (chartSize this) \<noteq> 0" and "cs_height (chartSize this) \<noteq> 0"
    and "0 \<le> outOfBoundsPenalty (options this)"
    and "generateCandidates this pt \<noteq> []"
    and "\<forall>c\<in>set (generateCandidates this pt).
           collisions this pt c \<noteq> [] \<or> overlapsExclusionZone pt c \<or> violatesBoundary pt c"
  shows "placeLabelForPoint this pt = Inr None"
proof -
  from placeLabelForPoint_chosen[OF assms(4)] obtain i where
    i: "i < length (generateCandidates this pt)"
    and r: "placeLabelForPoint this pt =
             (if jle (finalScore this pt (generateCandidates this pt ! i)) (Fin (- 100000))
              then Inr None else Inr (Some (labelAt pt (generateCandidates this pt ! i))))"
    by blast
  let ?c = "generateCandidates this pt ! i"
  have mem: "?c \<in> set (generateCandidates this pt)" using i by simp
  have "jle (finalScore this pt ?c) (Fin (- 100000))"
    using committed_clean[OF assms(1-3) mem] assms(5) mem by blast
  with r show ?thesis by simp
qed

lemma intersects_padded:
  "intersects (toRTreeBox (labelAt pt c) 2) b
   = intersects (queryBox (c_x c - 2) (c_y c - 2) (c_x c + p_width pt + 2) (c_y c + p_height pt + 2)) b"
  by (simp add: intersects_def toRTreeBox_def labelAt_def queryBox_def)

lemma intersects_commute: "intersects a b = intersects b a"
  by (auto simp: intersects_def)

lemma no_collisions:
  "collisions this pt c = [] \<Longrightarrow> b \<in> set (tree this) \<Longrightarrow> \<not> intersects (toRTreeBox (labelAt pt c) 2) b"
  by (auto simp: collisions_def Let_def search_def intersects_padded filter_empty_conv)

lemma output_disjoint:
  assumes "placeAll this points = Inr (out, this')"
    and "cs_width (chartSize this) \<noteq> 0" and "cs_height (chartSize this) \<noteq> 0"
    and "0 \<le> outOfBoundsPenalty (options this)"
  shows "\<forall>i<length out. \<forall>j<length out. i \<noteq> j \<longrightarrow>
           \<not> intersects (toRTreeBox (out ! i) 2) (toRTreeBox (out ! j) 2)"
proof -
  have later: "\<not> intersects (toRTreeBox (out ! j) 2) (toRTreeBox (out ! i) 2)" if "i < j" "j < length out" for i j
  proof -
    from placeAll_trace[OF assms(1)] that(2)
    have "chosenIn this (map snd (sortedGroups (filter hasLabel points))) (take j out) (out ! j)"
      by blast
    then obtain pt c where c: "c \<in> set (generateCandidates (placerWith this (take j out)) pt)"
      and sc: "\<not> jle (finalScore (placerWith this (take j out)) pt c) (Fin (- 100000))"
      and l: "out ! j = labelAt pt c"
      unfolding chosenIn_def by blast
    have "collisions (placerWith this (take j out)) pt c = []"
      using committed_clean[OF _ _ _ c sc] assms(2-4) by simp
    moreover have "toRTreeBox (out ! i) 2 \<in> set (tree (placerWith this (take j out)))"
      using that by (auto simp: in_set_conv_nth intro!: image_eqI[where x = "out ! i"] exI[of _ i])
    ultimately show ?thesis using no_collisions l by metis
  qed
  show ?thesis
  proof (intro allI impI)
    fix i j assume "i < length out" "j < length out" "i \<noteq> j"
    then consider "i < j" | "j < i" by linarith
    then show "\<not> intersects (toRTreeBox (out ! i) 2) (toRTreeBox (out ! j) 2)"
      using later \<open>i < length out\<close> \<open>j < length out\<close> intersects_commute by cases blast+
  qed
qed

subsection \<open>The shape of the candidate list\<close>

lemma clamp_collapse: "hi \<le> lo \<Longrightarrow> max lo (min v hi) = (lo::real)"
  by auto

lemma primaryPosition_collapse:
  assumes "cs_width sz - 1 - p_width pt \<le> 1" and "cs_height sz - 1 - p_height pt \<le> 1"
  shows "primaryPosition sz pt i = (1, 1)"
  unfolding primaryPosition_def Let_def clamp_collapse[OF assms(1)] clamp_collapse[OF assms(2)]
  by (rule refl)

lemma expandingPosition_collapse:
  assumes "cs_width sz - 1 - p_width pt \<le> 1" and "cs_height sz - 1 - p_height pt \<le> 1"
  shows "expandingPosition sz pt r n i = (1, 1)"
  unfolding expandingPosition_def Let_def clamp_collapse[OF assms(1)] clamp_collapse[OF assms(2)]
  by (rule refl)

lemma concat_map_Nil: "(\<And>x. x \<in> set xs \<Longrightarrow> f x = []) \<Longrightarrow> concat (map f xs) = []"
  by (induction xs) auto

text \<open>
  When the label leaves no room in the chart, the clamped candidates all sit at the
  corner \<open>(1, 1)\<close>; when the centre of that box is too near the point, none is pushed.
\<close>

lemma clamped_candidates_none:
  assumes "cs_width (chartSize this) - 1 - p_width pt \<le> 1"
    and "cs_height (chartSize this) - 1 - p_height pt \<le> 1"
    and "distanceToPoint pt 1 1 < exclusionRadius"
  shows "generateCandidates this pt =
           concat (map (fallbackRing (options this) pt) [1..<Suc (nat (rings (options this)))])
           @ concat (map (halfStepRing (options this) pt) [1..<Suc (nat (rings (options this)))])"
proof -
  have p: "primaryCandidate (chartSize this) pt i = []" for i
    using assms by (simp add: primaryCandidate_def primaryPosition_collapse pushIfFarEnough_def)
  have e: "expandingCandidate (chartSize this) pt r n i = []" for r n i
    using assms by (simp add: expandingCandidate_def expandingPosition_collapse pushIfFarEnough_def)
  have "concat (map (primaryCandidate (chartSize this) pt) [0..<64]) = []"
    by (rule concat_map_Nil) (rule p)
  moreover have "expandingRing (chartSize this) (options this) pt r = []" for r
    unfolding expandingRing_def Let_def by (rule concat_map_Nil) (rule e)
  then have "concat (map (expandingRing (chartSize this) (options this) pt) [1..<nat (rings (options this))]) = []"
    by (intro concat_map_Nil)
  ultimately show ?thesis by (simp add: generateCandidates_def Let_def)
qed

text \<open>Every candidate is a clamped one or lies on a ring; its rotation is zero.\<close>

lemma candidate_kinds:
  assumes "c \<in> set (generateCandidates this pt)"
  shows "(\<exists>i. c \<in> set (primaryCandidate (chartSize this) pt i))
       \<or> (\<exists>r n i. c \<in> set (expandingCandidate (chartSize this) pt r n i))
       \<or> (\<exists>ring a. 1 \<le> ring \<and> int ring \<le> rings (options this)
             \<and> (c = ringCandidate pt (exclusionRadius + real ring * 5) a
                \<or> c = ringCandidate pt (max exclusionRadius (radius (options this) * real ring)) a))"
proof -
  have rng: "1 \<le> ring \<and> int ring \<le> rings (options this)"
    if "ring \<in> set [1..<Suc (nat (rings (options this)))]" for ring
    using that by auto
  from assms consider
      (p) i where "c \<in> set (primaryCandidate (chartSize this) pt i)"
    | (e) r where "c \<in> set (expandingRing (chartSize this) (options this) pt r)"
    | (f) ring where "ring \<in> set [1..<Suc (nat (rings (options this)))]" "c \<in> set (fallbackRing (options this) pt ring)"
    | (h) ring where "ring \<in> set [1..<Suc (nat (rings (options this)))]" "c \<in> set (halfStepRing (options this) pt ring)"
    unfolding generateCandidates_def Let_def set_append set_concat set_map by blast
  then show ?thesis
  proof cases
    case p then show ?thesis by blast
  next
    case e then show ?thesis unfolding expandingRing_def Let_def set_concat set_map by blast
  next
    case f
    from f(2) obtain a where "c = ringCandidate pt (exclusionRadius + real ring * 5) a"
      unfolding fallbackRing_def Let_def by auto
    with rng[OF f(1)] show ?thesis by blast
  next
    case h
    from h(2) obtain a where "c = ringCandidate pt (max exclusionRadius (radius (options this) * real ring)) a"
      unfolding halfStepRing_def Let_def by auto
    with rng[OF h(1)] show ?thesis by blast
  qed
qed

lemma candidate_rotation:
  assumes "c \<in> set (generateCandidates this pt)"
  shows "c_rotation c = 0"
  using candidate_kinds[OF assms]
  by (auto simp: primaryCandidate_def expandingCandidate_def pushIfFarEnough_def mkCandidate_def
                 ringCandidate_def split: if_splits)

lemma clamped_candidate_corner:
  assumes "cs_width (chartSize this) - 1 - p_width pt \<le> 1"
    and "cs_height (chartSize this) - 1 - p_height pt \<le> 1"
    and "c \<in> set (primaryCandidate (chartSize this) pt i) \<or> c \<in> set (expandingCandidate (chartSize this) pt r n j)"
  shows "c = mkCandidate 1 1"
  using assms
  by (auto simp: primaryCandidate_def expandingCandidate_def primaryPosition_collapse
                 expandingPosition_collapse pushIfFarEnough_def split: if_splits)

lemma corner_candidate:
  assumes "cs_width (chartSize this) - 1 - p_width pt \<le> 1"
    and "cs_height (chartSize this) - 1 - p_height pt \<le> 1"
    and "exclusionRadius \<le> distanceToPoint pt 1 1"
  shows "mkCandidate 1 1 \<in> set (generateCandidates this pt)"
proof -
  have "primaryCandidate (chartSize this) pt 0 = [mkCandidate 1 1]"
    using assms by (simp add: primaryCandidate_def primaryPosition_collapse pushIfFarEnough_def)
  then have "mkCandidate 1 1 \<in> set (concat (map (primaryCandidate (chartSize this) pt) [0..<64]))"
    by (auto intro!: bexI[of _ "0::nat"])
  then show ?thesis by (simp add: generateCandidates_def Let_def)
qed

text \<open>The box of a candidate on a ring of small radius covers the point.\<close>

lemma ring_covers_point:
  assumes "\<bar>r\<bar> < exclusionRadius + p_width pt / 2" and "\<bar>r\<bar> < exclusionRadius + p_height pt / 2"
  shows "overlapsExclusionZone pt (ringCandidate pt r a)"
proof -
  define R where "R = \<bar>r\<bar>"
  define X where "X = r * cos a"
  define Y where "Y = r * sin a"
  have "\<bar>X\<bar> \<le> R" 
    unfolding X_def R_def abs_mult using abs_cos_le_one[of a] by (simp add: mult_left_le)
  then have X: "X \<le> R" "- R \<le> X" by linarith+
  have "\<bar>Y\<bar> \<le> R"
    unfolding Y_def R_def abs_mult using abs_sin_le_one[of a] by (simp add: mult_left_le)
  then have Y: "Y \<le> R" "- R \<le> Y" by linarith+
  have w: "R < exclusionRadius + p_width pt / 2" and h: "R < exclusionRadius + p_height pt / 2"
    using assms by (simp_all add: R_def)
  have "p_x pt + X - p_width pt / 2 < p_x pt + exclusionRadius" using X w by linarith
  moreover have "p_x pt + X - p_width pt / 2 + p_width pt > p_x pt - exclusionRadius" using X w by linarith
  moreover have "p_y pt + Y - p_height pt / 2 < p_y pt + exclusionRadius" using Y h by linarith
  moreover have "p_y pt + Y - p_height pt / 2 + p_height pt > p_y pt - exclusionRadius" using Y h by linarith
  ultimately show ?thesis
    unfolding overlapsExclusionZone_def Let_def ringCandidate_def mkCandidate_def X_def Y_def
    by simp
qed

subsection \<open>A pass on the chart of 20 by 20 pixels\<close>

lemma dominant_candidate:
  assumes "cs_width (chartSize this) \<noteq> 0" and "cs_height (chartSize this) \<noteq> 0"
    and "c0 \<in> set (generateCandidates this pt)"
    and "finalScore this pt c0 = Fin s0" and "- 100000 < s0"
    and "\<forall>c\<in>set (generateCandidates this pt).
           (c_x c = c_x c0 \<and> c_y c = c_y c0) \<or> (\<exists>s. finalScore this pt c = Fin s \<and> s < s0)"
  shows "placeLabelForPoint this pt = Inr (Some (labelAt pt c0))"
proof -
  have ne: "generateCandidates this pt \<noteq> []" using assms(3) by auto
  from placeLabelForPoint_chosen[OF ne] obtain i where
    i: "i < length (generateCandidates this pt)"
    and mx: "\<forall>j<length (generateCandidates this pt).
               \<not> jgt (finalScore this pt (generateCandidates this pt ! j))
                      (finalScore this pt (generateCandidates this pt ! i))"
    and r: "placeLabelForPoint this pt =
             (if jle (finalScore this pt (generateCandidates this pt ! i)) (Fin (- 100000))
              then Inr None else Inr (Some (labelAt pt (generateCandidates this pt ! i))))"
    by blast
  let ?c = "generateCandidates this pt ! i"
  have mem: "?c \<in> set (generateCandidates this pt)" using i by simp
  obtain s where s: "finalScore this pt ?c = Fin s"
    using finalScore_finite[OF assms(1,2)] by blast
  from assms(3) obtain j where "j < length (generateCandidates this pt)" "generateCandidates this pt ! j = c0"
    by (auto simp: in_set_conv_nth)
  with mx have "\<not> jgt (finalScore this pt c0) (finalScore this pt ?c)" by auto
  then have ge: "s0 \<le> s" using assms(4) s by simp
  with assms(6) mem s have "c_x ?c = c_x c0 \<and> c_y ?c = c_y c0" by fastforce
  moreover have "c_rotation ?c = c_rotation c0"
    using candidate_rotation[OF mem] candidate_rotation[OF assms(3)] by simp
  ultimately have "labelAt pt ?c = labelAt pt c0" by (simp add: labelAt_def)
  moreover have "\<not> jle (finalScore this pt ?c) (Fin (- 100000))" using s ge assms(5) by simp
  ultimately show ?thesis using r by simp
qed

lemma sqrt_ge_7: "49 \<le> a \<Longrightarrow> \<not> sqrt a < 7"
proof -
  assume "49 \<le> a"
  then have "sqrt 49 \<le> sqrt a" by (simp only: real_sqrt_le_iff)
  moreover have "sqrt 49 = 7" using real_sqrt_abs[of 7] by simp
  ultimately show ?thesis by simp
qed

lemma sqrt_lt_7: "a < 49 \<Longrightarrow> sqrt a < 7"
proof -
  assume "a < 49"
  then have "sqrt a < sqrt 49" by (simp only: real_sqrt_less_iff)
  moreover have "sqrt 49 = 7" using real_sqrt_abs[of 7] by simp
  ultimately show ?thesis by simp
qed

lemma sqrt_289: "sqrt 289 = 17"
  using real_sqrt_abs[of 17] by simp

lemmas chart20_defs = chart20_def newLabelPlacer_def mergeOptions_def DEFAULT_OPTIONS_def noOptions_def spread_def

lemma corner_score:
  assumes "chartSize th = \<lparr>cs_width = 20, cs_height = 20\<rparr>" and "options th = options chart20" and "tree th = []"
    and A: "p_x pt = 27" "p_y pt = 10" "p_width pt = 18" "p_height pt = 18" "p_allPoints pt = Some refsAB"
  shows "finalScore th pt (mkCandidate 1 1) = Fin (- 160)"
proof -
  have cb: "centerBonus \<lparr>cs_width = 20, cs_height = 20\<rparr> 10 10 = Fin 10"
    by (simp add: centerBonus_def Let_def)
  have o: "overlapStep th pt (mkCandidate 1 1) (Fin 0) = Fin 0"
    using assms(3) by (simp add: overlapStep_def collisions_def Let_def search_def)
  have p: "pointStep th pt (mkCandidate 1 1) (Fin 0) = Fin 0"
    by (simp add: pointStep_def coveredPenalty_def A refsAB_def pointInRect_def mkCandidate_def Let_def)
  have b: "borderStep \<lparr>cs_width = 20, cs_height = 20\<rparr> 10 10 (Fin 0) = Fin 0"
    by (simp add: borderStep_def Let_def)
  have ob: "outOfBoundsStep th pt (mkCandidate 1 1) (Fin 10) = Fin 10"
    using assms(1) by (simp add: outOfBoundsStep_def isOutOfBounds_def A mkCandidate_def Let_def)
  have d: "distanceStep pt 10 10 (Fin 10) = Fin (- 160)"
    by (simp add: distanceStep_def Let_def A sqrt_289)
  have ctr: "c_x (mkCandidate 1 1) + p_width pt / 2 = 10" "c_y (mkCandidate 1 1) + p_height pt / 2 = 10"
    by (simp_all add: mkCandidate_def A)
  have sc: "c_score (scoreCandidate th pt (mkCandidate 1 1)) = Fin (- 160)"
    unfolding scoreCandidate_def Let_def ctr assms(1) o p b cb by (simp add: ob d)
  have "\<not> overlapsExclusionZone pt (mkCandidate 1 1)"
    by (simp add: overlapsExclusionZone_def Let_def A mkCandidate_def exclusionRadius_def)
  moreover have "\<not> violatesBoundary pt (mkCandidate 1 1)"
    by (simp add: violatesBoundary_def Let_def A mkCandidate_def exclusionRadius_def sqrt_ge_7)
  ultimately show ?thesis
    using sc by (simp add: finalScore_def applyBoundaryPenalty_def)
qed


lemma place_at_corner:
  assumes "chartSize th = \<lparr>cs_width = 20, cs_height = 20\<rparr>" and "options th = options chart20" and "tree th = []"
    and A: "p_x pt = 27" "p_y pt = 10" "p_width pt = 18" "p_height pt = 18" "p_allPoints pt = Some refsAB"
  shows "placeLabelForPoint th pt = Inr (Some (labelAt pt (mkCandidate 1 1)))"
proof -
  have w: "cs_width (chartSize th) - 1 - p_width pt \<le> 1" "cs_height (chartSize th) - 1 - p_height pt \<le> 1"
    using assms(1) by (simp_all add: A)
  have far: "exclusionRadius \<le> distanceToPoint pt 1 1"
    by (simp add: distanceToPoint_def A exclusionRadius_def sqrt_289)
  have c0: "mkCandidate 1 1 \<in> set (generateCandidates th pt)"
    by (rule corner_candidate[OF w far])
  have nz: "cs_width (chartSize th) \<noteq> 0" "cs_height (chartSize th) \<noteq> 0" using assms(1) by simp_all
  have others: "(c_x c = c_x (mkCandidate 1 1) \<and> c_y c = c_y (mkCandidate 1 1))
                \<or> (\<exists>s. finalScore th pt c = Fin s \<and> s < - 160)"
    if c: "c \<in> set (generateCandidates th pt)" for c
  proof (cases "c_x c = 1 \<and> c_y c = 1")
    case True
    then show ?thesis by (simp add: mkCandidate_def)
  next
    case False
    then have "isOutOfBounds (chartSize th) (c_x c) (c_y c) (p_width pt) (p_height pt)"
      using assms(1) by (auto simp: isOutOfBounds_def Let_def A)
    then have oob: "outOfBoundsCost th pt c = 300"
      using assms(2) by (simp add: outOfBoundsCost_def chart20_defs)
    from finalScore_finite[OF nz, of pt c] obtain s where s: "finalScore th pt c = Fin s"
      "s \<le> 10 - 10 * distanceToPoint pt (c_x c) (c_y c)
                  - 100000 * real (length (collisions th pt c))
                  - coveredCost th pt c - outOfBoundsCost th pt c
                  - (if overlapsExclusionZone pt c \<or> violatesBoundary pt c then 100000 else 0)"
      by blast
    have "7 \<le> distanceToPoint pt (c_x c) (c_y c)"
      using candidate_distance[OF c] by (simp add: exclusionRadius_def)
    with s(2) oob coveredCost_nonneg[of th pt c] have "s < - 160"
      by (auto split: if_splits)
    with s(1) show ?thesis by blast
  qed
  show ?thesis
    by (rule dominant_candidate[OF nz c0 corner_score[OF assms]]) (use others in auto)
qed

lemma place_anchorA:
  assumes "chartSize th = \<lparr>cs_width = 20, cs_height = 20\<rparr>" and "options th = options chart20" and "tree th = []"
  shows "placeLabelForPoint th anchorA = Inr (Some labelA)"
proof -
  have "placeLabelForPoint th anchorA = Inr (Some (labelAt anchorA (mkCandidate 1 1)))"
    by (rule place_at_corner[OF assms]) (simp_all add: anchorA_def)
  moreover have "labelAt anchorA (mkCandidate 1 1) = labelA"
    by (simp add: labelAt_def labelA_def mkCandidate_def anchorA_def)
  ultimately show ?thesis by simp
qed

text \<open>
  A label too large for the rings: every candidate's box covers the point, and the label
  is dropped.
\<close>

lemma large_label_dropped:
  assumes "cs_width (chartSize this) \<noteq> 0" and "cs_height (chartSize this) \<noteq> 0"
    and "options this = options chart20"
    and "cs_width (chartSize this) - 1 - p_width pt \<le> 1"
    and "cs_height (chartSize this) - 1 - p_height pt \<le> 1"
    and "overlapsExclusionZone pt (mkCandidate 1 1)"
    and "100 \<le> p_width pt" and "100 \<le> p_height pt"
  shows "placeLabelForPoint this pt = Inr None"
proof (rule rejected_dropped[OF assms(1,2)])
  show "0 \<le> outOfBoundsPenalty (options this)" using assms(3) by (simp add: chart20_defs)
  have rg: "0 < rings (options this)" and ag: "0 < anglesPerRing (options this)"
    using assms(3) by (simp_all add: chart20_defs)
  from first_fallback_candidate[OF rg ag, of pt] show "generateCandidates this pt \<noteq> []" by auto
  show "\<forall>c\<in>set (generateCandidates this pt).
          collisions this pt c \<noteq> [] \<or> overlapsExclusionZone pt c \<or> violatesBoundary pt c"
  proof
    fix c assume c: "c \<in> set (generateCandidates this pt)"
    from candidate_kinds[OF c] consider
        (clamped) i r n j where "c \<in> set (primaryCandidate (chartSize this) pt i)
                  \<or> c \<in> set (expandingCandidate (chartSize this) pt r n j)"
      | (ring) ring a where "1 \<le> ring" "int ring \<le> rings (options this)"
           "c = ringCandidate pt (exclusionRadius + real ring * 5) a
            \<or> c = ringCandidate pt (max exclusionRadius (radius (options this) * real ring)) a"
      by blast
    then have "overlapsExclusionZone pt c"
    proof cases
      case clamped
      then have "c = mkCandidate 1 1" using clamped_candidate_corner[OF assms(4,5)] by blast
      then show ?thesis using assms(6) by simp
    next
      case ring
      have r5: "real ring \<le> 5" using ring(2) assms(3) by (simp add: chart20_defs)
      have rad: "radius (options this) = 10" using assms(3) by (simp add: chart20_defs)
      have r1: "\<bar>exclusionRadius + real ring * 5\<bar> < exclusionRadius + p_width pt / 2"
           "\<bar>exclusionRadius + real ring * 5\<bar> < exclusionRadius + p_height pt / 2"
        using r5 assms(7,8) by (simp_all add: exclusionRadius_def)
      have r2: "\<bar>max exclusionRadius (radius (options this) * real ring)\<bar> < exclusionRadius + p_width pt / 2"
           "\<bar>max exclusionRadius (radius (options this) * real ring)\<bar> < exclusionRadius + p_height pt / 2"
        using r5 assms(7,8) rad by (simp_all add: exclusionRadius_def max_def)
      from ring(3) show ?thesis
        using ring_covers_point[OF r1] ring_covers_point[OF r2] by auto
    qed
    then show "collisions this pt c \<noteq> [] \<or> overlapsExclusionZone pt c \<or> violatesBoundary pt c" by simp
  qed
qed

lemma drop_anchorB:
  assumes "chartSize th = \<lparr>cs_width = 20, cs_height = 20\<rparr>" and "options th = options chart20"
  shows "placeLabelForPoint th anchorB = Inr None"
  by (rule large_label_dropped)
     (use assms in \<open>simp_all add: anchorB_def overlapsExclusionZone_def Let_def mkCandidate_def exclusionRadius_def\<close>)

lemma hasLabel_A [simp]: "hasLabel anchorA" "hasLabel anchorB"
  by (simp_all add: hasLabel_def trim_def isWhiteSpace_def anchorA_def anchorB_def)

lemma groups_AB: "map snd (sortedGroups [anchorA, anchorB]) = [[anchorA], [anchorB]]"
  by (simp add: sortedGroups_def pointGroups_def groupKey_def mathRound_def sort_js_def byFirstY_def
        anchorA_def anchorB_def)

lemma pass_AB:
  "placeAll chart20 [anchorA, anchorB] = Inr ([labelA], commit chart20 labelA)"
proof -
  let ?th0 = "chart20\<lparr>tree := [], placedLabels := []\<rparr>"
  have th0: "?th0 = chart20" unfolding chart20_def newLabelPlacer_def by simp
  have a: "placeLabelForPoint chart20 anchorA = Inr (Some labelA)"
    by (rule place_anchorA) (simp_all add: chart20_defs)
  have b: "placeLabelForPoint (commit chart20 labelA) anchorB = Inr None"
    by (rule drop_anchorB) (simp_all add: chart20_defs)
  have pl: "placedLabels chart20 = []" by (simp add: chart20_def newLabelPlacer_def)
  show ?thesis
    unfolding placeAll_def Let_def th0
    by (simp add: groups_AB placeGroup_def groupPoint_def a b pl)
qed

subsection \<open>Charts of zero width or height\<close>

text \<open>
  On a chart of zero width or height no comparison of two scores is positive: the sort
  leaves the candidates in the order of their generation and the first one is chosen.
\<close>

lemma degenerate_first:
  assumes "cs_width (chartSize this) = 0 \<or> cs_height (chartSize this) = 0"
    and "generateCandidates this pt = c0 # rest"
  shows "placeLabelForPoint this pt =
           (if finalScore this pt c0 = NaN then Inr (Some (labelAt pt c0)) else Inr None)"
proof -
  let ?sc = "scoredCandidates this pt"
  have deg: "finalScore this pt c = NaN \<or> finalScore this pt c = NegInf" for c
    using finalScore_degenerate[OF assms(1), of pt c] by presburger
  have "\<forall>a\<in>set ?sc. c_score a = NaN \<or> c_score a = NegInf"
    using deg by (auto simp: scoredCandidates_map finalScore_def)
  then have "\<forall>a\<in>set ?sc. \<forall>b\<in>set ?sc. \<not> jgt (byScoreDescending a b) (Fin 0)"
    using byScoreDescending_degenerate by blast
  then have "sort_js byScoreDescending ?sc = ?sc" by (rule sort_js_unordered)
  moreover have "?sc = applyBoundaryPenalty pt (scoreCandidate this pt c0)
                       # map (\<lambda>c. applyBoundaryPenalty pt (scoreCandidate this pt c)) rest"
    using assms(2) by (simp add: scoredCandidates_map)
  ultimately have "placeLabelForPoint this pt =
      (if jle (finalScore this pt c0) (Fin (- 100000)) then Inr None else Inr (Some (labelAt pt c0)))"
    by (simp add: placeLabelForPoint_def finalScore_def labelAt_def)
  then show ?thesis using deg[of c0] by auto
qed

lemma fallbackRing_first:
  assumes "0 < anglesPerRing opts"
  shows "\<exists>rest. fallbackRing opts pt 1 = ringCandidate pt (exclusionRadius + 5) 0 # rest"
proof -
  have "[0..<nat (anglesPerRing opts)] = 0 # [1..<nat (anglesPerRing opts)]"
    using assms by (simp add: upt_conv_Cons)
  then show ?thesis by (simp add: fallbackRing_def Let_def)
qed

lemma rings_first:
  assumes "0 < rings opts" and "0 < anglesPerRing opts"
  shows "\<exists>rest. concat (map (fallbackRing opts pt) [1..<Suc (nat (rings opts))])
                 = ringCandidate pt (exclusionRadius + 5) 0 # rest"
proof -
  have lt: "1 < Suc (nat (rings opts))" using assms(1) by arith
  have e: "[1..<Suc (nat (rings opts))] = 1 # [Suc 1..<Suc (nat (rings opts))]"
    by (rule upt_conv_Cons[OF lt])
  obtain rest where r: "fallbackRing opts pt 1 = ringCandidate pt (exclusionRadius + 5) 0 # rest"
    using fallbackRing_first[OF assms(2)] by blast
  have "concat (map (fallbackRing opts pt) [1..<Suc (nat (rings opts))])
        = ringCandidate pt (exclusionRadius + 5) 0
          # (rest @ concat (map (fallbackRing opts pt) [Suc 1..<Suc (nat (rings opts))]))"
    by (simp only: e list.map concat.simps r append_Cons)
  then show ?thesis by blast
qed

text \<open>
  The first candidate, with at least one ring and one angle: a clamped candidate, or else
  the first candidate of the first fallback ring.
\<close>

lemma head_candidate:
  assumes "0 < rings (options this)" and "0 < anglesPerRing (options this)"
  shows "\<exists>c0 rest. generateCandidates this pt = c0 # rest \<and>
           ((\<exists>i. c0 \<in> set (primaryCandidate (chartSize this) pt i))
            \<or> (\<exists>r n i. c0 \<in> set (expandingCandidate (chartSize this) pt r n i))
            \<or> c0 = ringCandidate pt (exclusionRadius + 5) 0)"
proof -
  let ?P = "concat (map (primaryCandidate (chartSize this) pt) [0..<64])"
  let ?E = "concat (map (expandingRing (chartSize this) (options this) pt) [1..<nat (rings (options this))])"
  let ?F = "concat (map (fallbackRing (options this) pt) [1..<Suc (nat (rings (options this)))])"
  let ?H = "concat (map (halfStepRing (options this) pt) [1..<Suc (nat (rings (options this)))])"
  have gen: "generateCandidates this pt = (?P @ ?E) @ ?F @ ?H"
    unfolding generateCandidates_def Let_def by (simp only: append_assoc)
  obtain frest where F: "?F = ringCandidate pt (exclusionRadius + 5) 0 # frest"
    using rings_first[OF assms] by blast
  show ?thesis
  proof (cases "?P @ ?E")
    case Nil
    have "generateCandidates this pt = ringCandidate pt (exclusionRadius + 5) 0 # (frest @ ?H)"
      by (simp only: gen Nil F append_Nil append_Cons)
    then show ?thesis by blast
  next
    case (Cons c0 rest)
    then have "c0 \<in> set (?P @ ?E)" by (simp only: list.set_intros(1))
    then have "c0 \<in> set ?P \<or> c0 \<in> set ?E" by (simp only: set_append Un_iff)
    then have "(\<exists>i. c0 \<in> set (primaryCandidate (chartSize this) pt i))
            \<or> (\<exists>r n i. c0 \<in> set (expandingCandidate (chartSize this) pt r n i))"
      by (auto simp: expandingRing_def Let_def)
    moreover have "generateCandidates this pt = c0 # (rest @ ?F @ ?H)"
      by (simp only: gen Cons append_Cons)
    ultimately show ?thesis by blast
  qed
qed

lemma clamped_x:
  assumes "cs_width sz - 1 - p_width pt \<le> 1"
    and "c \<in> set (primaryCandidate sz pt i) \<or> c \<in> set (expandingCandidate sz pt r n j)"
  shows "c_x c = 1"
proof -
  have "fst (primaryPosition sz pt i) = 1"
    unfolding primaryPosition_def Let_def clamp_collapse[OF assms(1)] by simp
  moreover have "fst (expandingPosition sz pt r n j) = 1"
    unfolding expandingPosition_def Let_def clamp_collapse[OF assms(1)] by simp
  ultimately show ?thesis using assms(2)
    by (auto simp: primaryCandidate_def expandingCandidate_def pushIfFarEnough_def mkCandidate_def
             split: if_splits)
qed

lemma clamped_y:
  assumes "cs_height sz - 1 - p_height pt \<le> 1"
    and "c \<in> set (primaryCandidate sz pt i) \<or> c \<in> set (expandingCandidate sz pt r n j)"
  shows "c_y c = 1"
proof -
  have "snd (primaryPosition sz pt i) = 1"
    unfolding primaryPosition_def Let_def clamp_collapse[OF assms(1)] by simp
  moreover have "snd (expandingPosition sz pt r n j) = 1"
    unfolding expandingPosition_def Let_def clamp_collapse[OF assms(1)] by simp
  ultimately show ?thesis using assms(2)
    by (auto simp: primaryCandidate_def expandingCandidate_def pushIfFarEnough_def mkCandidate_def
             split: if_splits)
qed

text \<open>
  On a chart of zero width or height a label of non-negative size is dropped, unless the
  point has the coordinate \<open>-12\<close> or \<open>0\<close> along the axis of length zero.
\<close>

lemma degenerate_dropped:
  assumes "cs_width (chartSize this) = 0 \<or> cs_height (chartSize this) = 0"
    and "0 < rings (options this)" and "0 < anglesPerRing (options this)"
    and "0 \<le> p_width pt" and "0 \<le> p_height pt"
    and "cs_width (chartSize this) = 0 \<longrightarrow> p_x pt \<noteq> - 12"
    and "cs_height (chartSize this) = 0 \<longrightarrow> p_y pt \<noteq> 0"
  shows "placeLabelForPoint this pt = Inr None"
proof -
  from head_candidate[OF assms(2,3), of pt] obtain c0 rest where
    gen: "generateCandidates this pt = c0 # rest"
    and kind: "(\<exists>i r n j. c0 \<in> set (primaryCandidate (chartSize this) pt i)
                 \<or> c0 \<in> set (expandingCandidate (chartSize this) pt r n j))
            \<or> c0 = ringCandidate pt (exclusionRadius + 5) 0"
    by blast
  have "finalScore this pt c0 \<noteq> NaN"
  proof -
    have "\<not> (cs_width (chartSize this) = 0 \<and> c_x c0 + p_width pt / 2 = 0)"
    proof
      assume a: "cs_width (chartSize this) = 0 \<and> c_x c0 + p_width pt / 2 = 0"
      from kind show False
      proof
        assume "\<exists>i r n j. c0 \<in> set (primaryCandidate (chartSize this) pt i)
                 \<or> c0 \<in> set (expandingCandidate (chartSize this) pt r n j)"
        then have "c_x c0 = 1" using clamped_x[of "chartSize this" pt c0] a assms(4) by auto
        with a assms(4) show False by simp
      next
        assume "c0 = ringCandidate pt (exclusionRadius + 5) 0"
        then have "c_x c0 + p_width pt / 2 = p_x pt + 12"
          by (simp add: ringCandidate_def mkCandidate_def exclusionRadius_def)
        with a assms(6) show False by simp
      qed
    qed
    moreover have "\<not> (cs_height (chartSize this) = 0 \<and> c_y c0 + p_height pt / 2 = 0)"
    proof
      assume a: "cs_height (chartSize this) = 0 \<and> c_y c0 + p_height pt / 2 = 0"
      from kind show False
      proof
        assume "\<exists>i r n j. c0 \<in> set (primaryCandidate (chartSize this) pt i)
                 \<or> c0 \<in> set (expandingCandidate (chartSize this) pt r n j)"
        then have "c_y c0 = 1" using clamped_y[of "chartSize this" pt c0] a assms(5) by auto
        with a assms(5) show False by simp
      next
        assume "c0 = ringCandidate pt (exclusionRadius + 5) 0"
        then have "c_y c0 + p_height pt / 2 = p_y pt"
          by (simp add: ringCandidate_def mkCandidate_def)
        with a assms(7) show False by simp
      qed
    qed
    ultimately show ?thesis using finalScore_degenerate[OF assms(1), of pt c0] by simp
  qed
  then show ?thesis using degenerate_first[OF assms(1) gen] by simp
qed


text \<open>
  The case left out: no clamped candidate is pushed and the point has the coordinate
  \<open>0\<close> along an axis of length zero, so that the first candidate scores NaN. The label is
  committed whatever it overlaps.
\<close>

lemma degenerate_committed:
  assumes "cs_height (chartSize this) = 0" and "p_y pt = 0"
    and "0 < rings (options this)" and "0 < anglesPerRing (options this)"
    and "cs_width (chartSize this) - 1 - p_width pt \<le> 1"
    and "cs_height (chartSize this) - 1 - p_height pt \<le> 1"
    and "distanceToPoint pt 1 1 < exclusionRadius"
  shows "placeLabelForPoint this pt = Inr (Some (labelAt pt (ringCandidate pt 12 0)))"
proof -
  obtain rest where "concat (map (fallbackRing (options this) pt) [1..<Suc (nat (rings (options this)))])
                 = ringCandidate pt (exclusionRadius + 5) 0 # rest"
    using rings_first[OF assms(3,4)] by blast
  then obtain rest' where gen: "generateCandidates this pt = ringCandidate pt (exclusionRadius + 5) 0 # rest'"
    by (simp only: clamped_candidates_none[OF assms(5,6,7)] append_Cons)
  have "finalScore this pt (ringCandidate pt (exclusionRadius + 5) 0) = NaN"
    using finalScore_degenerate[of this pt "ringCandidate pt (exclusionRadius + 5) 0"] assms(1,2)
    by (simp add: ringCandidate_def mkCandidate_def)
  then show ?thesis
    using degenerate_first[OF _ gen] assms(1) by (simp add: exclusionRadius_def)
qed

lemmas chartZero_defs = chartZero_def newLabelPlacer_def mergeOptions_def DEFAULT_OPTIONS_def noOptions_def spread_def

lemma place_anchorP:
  assumes "chartSize th = \<lparr>cs_width = 0, cs_height = 0\<rparr>" and "options th = options chartZero"
  shows "placeLabelForPoint th anchorP = Inr (Some labelP)"
proof -
  have "placeLabelForPoint th anchorP = Inr (Some (labelAt anchorP (ringCandidate anchorP 12 0)))"
    by (rule degenerate_committed)
       (use assms in \<open>simp_all add: anchorP_def chartZero_defs distanceToPoint_def exclusionRadius_def sqrt_lt_7\<close>)
  moreover have "labelAt anchorP (ringCandidate anchorP 12 0) = labelP"
    by (simp add: labelAt_def ringCandidate_def mkCandidate_def labelP_def anchorP_def)
  ultimately show ?thesis by simp
qed

lemma place_anchorQ:
  assumes "chartSize th = \<lparr>cs_width = 0, cs_height = 0\<rparr>" and "options th = options chartZero"
  shows "placeLabelForPoint th anchorQ = Inr (Some labelQ)"
proof -
  have "placeLabelForPoint th anchorQ = Inr (Some (labelAt anchorQ (ringCandidate anchorQ 12 0)))"
    by (rule degenerate_committed)
       (use assms in \<open>simp_all add: anchorQ_def chartZero_defs distanceToPoint_def exclusionRadius_def sqrt_lt_7\<close>)
  moreover have "labelAt anchorQ (ringCandidate anchorQ 12 0) = labelQ"
    by (simp add: labelAt_def ringCandidate_def mkCandidate_def labelQ_def anchorQ_def)
  ultimately show ?thesis by simp
qed

lemma hasLabel_PQ [simp]: "hasLabel anchorP" "hasLabel anchorQ"
  by (simp_all add: hasLabel_def trim_def isWhiteSpace_def anchorP_def anchorQ_def)

lemma groups_PQ: "map snd (sortedGroups [anchorP, anchorQ]) = [[anchorP], [anchorQ]]"
  by (simp add: sortedGroups_def pointGroups_def groupKey_def mathRound_def sort_js_def byFirstY_def
        anchorP_def anchorQ_def)

lemma pass_PQ:
  "placeAll chartZero [anchorP, anchorQ] = Inr ([labelP, labelQ], commit (commit chartZero labelP) labelQ)"
proof -
  let ?th0 = "chartZero\<lparr>tree := [], placedLabels := []\<rparr>"
  have th0: "?th0 = chartZero" unfolding chartZero_def newLabelPlacer_def by simp
  have a: "placeLabelForPoint chartZero anchorP = Inr (Some labelP)"
    by (rule place_anchorP) (simp_all add: chartZero_defs)
  have b: "placeLabelForPoint (commit chartZero labelP) anchorQ = Inr (Some labelQ)"
    by (rule place_anchorQ) (simp_all add: chartZero_defs)
  have pl: "placedLabels chartZero = []" by (simp add: chartZero_def newLabelPlacer_def)
  show ?thesis
    unfolding placeAll_def Let_def th0
    by (simp add: groups_PQ placeGroup_def groupPoint_def a b pl)
qed

subsection \<open>Groups\<close>

lemma pointGroups_snoc: "pointGroups (pts @ [p]) = addToGroup p (pointGroups pts)"
  by (simp add: pointGroups_def)

lemma keys_addToGroup: "set (map fst (addToGroup p m)) = insert (groupKey p) (set (map fst m))"
  by (induction p m rule: addToGroup.induct) (simp_all add: insert_commute)

lemma distinct_addToGroup: "distinct (map fst m) \<Longrightarrow> distinct (map fst (addToGroup p m))"
proof (induction p m rule: addToGroup.induct)
  case (1 pt)
  then show ?case by simp
next
  case (2 pt k g rest)
  show ?case
  proof (cases "k = groupKey pt")
    case True
    then show ?thesis using "2.prems" by simp
  next
    case False
    have "k \<notin> set (map fst (addToGroup pt rest))"
      unfolding keys_addToGroup using "2.prems" False by simp
    then show ?thesis using 2 False by simp
  qed
qed

lemma map_of_addToGroup:
  "map_of (addToGroup p m) k =
     (if k = groupKey p then Some (case map_of m k of None \<Rightarrow> [p] | Some g \<Rightarrow> g @ [p])
      else map_of m k)"
  by (induction p m rule: addToGroup.induct) auto

text \<open>
  The groups: the keys are distinct, and the group of a key holds the points with that
  key, in the order of the input.
\<close>

lemma pointGroups_distinct: "distinct (map fst (pointGroups pts))"
  by (induction pts rule: rev_induct) (simp_all add: pointGroups_snoc distinct_addToGroup pointGroups_def)

lemma pointGroups_lookup:
  "map_of (pointGroups pts) k =
      (if k \<in> groupKey ` set pts then Some (filter (\<lambda>p. groupKey p = k) pts) else None)"
proof (induction pts rule: rev_induct)
  case Nil
  then show ?case by (simp add: pointGroups_def)
next
  case (snoc p pts)
  show ?case
  proof (cases "k = groupKey p")
    case True
    then show ?thesis
      unfolding pointGroups_snoc map_of_addToGroup snoc.IH
      by (auto simp: filter_empty_conv image_iff)
  next
    case False
    then show ?thesis
      unfolding pointGroups_snoc map_of_addToGroup snoc.IH by simp
  qed
qed

lemma pointGroups_member:
  assumes "(k, g) \<in> set (pointGroups pts)"
  shows "g = filter (\<lambda>p. groupKey p = k) pts \<and> g \<noteq> []"
proof -
  have "map_of (pointGroups pts) k = Some g"
    using assms pointGroups_distinct[of pts] by (rule map_of_is_SomeI[rotated])
  then have "k \<in> groupKey ` set pts \<and> g = filter (\<lambda>p. groupKey p = k) pts"
    unfolding pointGroups_lookup by (simp split: if_splits)
  then show ?thesis by (auto simp: filter_empty_conv)
qed


lemma sortedGroups_set [simp]: "set (sortedGroups pts) = set (pointGroups pts)"
  by (simp add: sortedGroups_def)

lemma sortedGroups_distinct: "distinct (map fst (sortedGroups pts))"
  using pointGroups_distinct[of pts] by (simp add: sortedGroups_def)

lemma fold_max_ge: "(a::real) \<le> fold max xs a"
proof (induction xs arbitrary: a)
  case Nil
  then show ?case by simp
next
  case (Cons x xs)
  have "a \<le> max x a" by simp
  also have "\<dots> \<le> fold max xs (max x a)" by (rule Cons.IH)
  finally show ?case by simp
qed

text \<open>The point placed for a group of the pass: where it lies and how large its label is.\<close>

lemma groupPoint_of_group:
  assumes "(k, g) \<in> set (pointGroups pts)"
  shows "\<exists>pt first rest. g = first # rest \<and> groupPoint g = Inr pt \<and> first \<in> set pts
           \<and> groupKey first = k
           \<and> p_x pt = p_x first \<and> p_y pt = p_y first \<and> groupKey pt = k
           \<and> p_width first \<le> p_width pt \<and> p_height first \<le> p_height pt"
proof -
  from pointGroups_member[OF assms] have ne: "g \<noteq> []" by blast
  then obtain first rest where g: "g = first # rest"
    by (cases g) auto
  from pointGroups_member[OF assms] have f: "g = filter (\<lambda>p. groupKey p = k) pts" by blast
  have "first \<in> set (filter (\<lambda>p. groupKey p = k) pts)" using g f by (metis list.set_intros(1))
  then have mem: "first \<in> set pts" "groupKey first = k" by auto
  show ?thesis
  proof (cases rest)
    case Nil
    then show ?thesis using g mem by (simp add: groupPoint_def)
  next
    case (Cons s ss)
    then have "groupPoint g = Inr (combinedPoint first rest)" using g by (simp add: groupPoint_def)
    moreover have "groupKey (combinedPoint first rest) = k"
      using mem(2) by (simp add: combinedPoint_def groupKey_def)
    ultimately show ?thesis using g mem fold_max_ge
      by (simp add: combinedPoint_def)
  qed
qed

subsection \<open>Runs of the loop over the groups\<close>

lemma placeLabelForPoint_total:
  assumes "generateCandidates this pt \<noteq> []"
  shows "\<exists>r. placeLabelForPoint this pt = Inr r"
  using placeLabelForPoint_chosen[OF assms] by (metis (full_types))

lemma placeGroup_total:
  assumes "0 < rings (options th)" and "0 < anglesPerRing (options th)" and "g \<noteq> []"
  shows "\<exists>th'. placeGroup th g = Inr th'"
proof -
  have "\<exists>pt. groupPoint g = Inr pt"
    using assms(3) by (simp add: groupPoint_def split: list.splits)
  then obtain pt where pt: "groupPoint g = Inr pt" by blast
  have "generateCandidates th pt \<noteq> []"
    using first_fallback_candidate[OF assms(1,2), of pt] by auto
  from placeLabelForPoint_total[OF this] obtain r where "placeLabelForPoint th pt = Inr r" by blast
  then show ?thesis using pt by (cases r) (simp_all add: placeGroup_def)
qed

lemma placeGroup_options:
  assumes "placeGroup th g = Inr th'"
  shows "options th' = options th \<and> chartSize th' = chartSize th"
  using placeGroup_cases[OF assms] by auto

lemma placeGroups_total:
  assumes "0 < rings (options th)" and "0 < anglesPerRing (options th)" and "\<forall>g\<in>set gs. g \<noteq> []"
  shows "\<exists>th'. placeGroups th gs = Inr th'"
  using assms
proof (induction gs arbitrary: th)
  case Nil
  then show ?case by simp
next
  case (Cons g gs)
  from placeGroup_total[OF Cons.prems(1,2), of g] Cons.prems(3) obtain th1 where
    th1: "placeGroup th g = Inr th1" by auto
  have "0 < rings (options th1)" "0 < anglesPerRing (options th1)"
    using placeGroup_options[OF th1] Cons.prems(1,2) by simp_all
  from Cons.IH[OF this] Cons.prems(3) obtain th' where "placeGroups th1 gs = Inr th'" by auto
  then show ?case using th1 by simp
qed

lemma sortedGroups_nonempty: "g \<in> set (map snd (sortedGroups pts)) \<Longrightarrow> g \<noteq> []"
  using pointGroups_member by fastforce

text \<open>With at least one ring and one angle per ring a pass returns.\<close>

lemma placeAll_total:
  assumes "0 < rings (options this)" and "0 < anglesPerRing (options this)"
  shows "\<exists>out this'. placeAll this points = Inr (out, this')"
proof -
  let ?th0 = "this\<lparr>tree := [], placedLabels := []\<rparr>"
  have "\<exists>th'. placeGroups ?th0 (map snd (sortedGroups (filter hasLabel points))) = Inr th'"
    by (rule placeGroups_total) (use assms sortedGroups_nonempty in auto)
  then show ?thesis by (auto simp: placeAll_def Let_def)
qed

lemma placeGroups_append:
  "placeGroups th (xs @ ys) =
     (case placeGroups th xs of Inl e \<Rightarrow> Inl e | Inr th1 \<Rightarrow> placeGroups th1 ys)"
  by (induction xs arbitrary: th) (auto split: sum.splits)

text \<open>A pass in which a group is dropped returns fewer labels than there are groups.\<close>

lemma dropped_fewer:
  assumes "placeGroups th0 (pre @ g # post) = Inr th'"
    and "tree th0 = map (\<lambda>l. toRTreeBox l 2) (placedLabels th0)"
    and "placeGroups th0 pre = Inr th" and "groupPoint g = Inr pt"
    and "placeLabelForPoint th pt = Inr None"
  shows "length (placedLabels th') < length (placedLabels th0) + length (pre @ g # post)"
proof -
  have step: "placeGroup th g = Inr th" using assms(4,5) by (simp add: placeGroup_def)
  have rest: "placeGroups th post = Inr th'"
    using assms(1,3) step by (simp add: placeGroups_append)
  from placeGroups_trace[OF assms(3,2)] obtain ls where ls: "placedLabels th = placedLabels th0 @ ls"
    "tree th = map (\<lambda>l. toRTreeBox l 2) (placedLabels th)" "length ls \<le> length pre"
    by blast
  from placeGroups_trace[OF rest ls(2)] obtain ms where ms: "placedLabels th' = placedLabels th @ ms"
    "length ms \<le> length post"
    by blast
  show ?thesis using ls(1,3) ms by simp
qed


subsection \<open>Where the candidates of a point lie\<close>

lemma ring_candidate_box:
  "p_x pt - p_width pt / 2 - \<bar>r\<bar> \<le> c_x (ringCandidate pt r a)
   \<and> c_x (ringCandidate pt r a) \<le> p_x pt - p_width pt / 2 + \<bar>r\<bar>
   \<and> p_y pt - p_height pt / 2 - \<bar>r\<bar> \<le> c_y (ringCandidate pt r a)
   \<and> c_y (ringCandidate pt r a) \<le> p_y pt - p_height pt / 2 + \<bar>r\<bar>"
proof -
  define X where "X = r * cos a"
  define Y where "Y = r * sin a"
  have "\<bar>X\<bar> \<le> \<bar>r\<bar>"
    unfolding X_def abs_mult using abs_cos_le_one[of a] by (simp add: mult_left_le)
  then have X: "X \<le> \<bar>r\<bar>" "- \<bar>r\<bar> \<le> X" by linarith+
  have "\<bar>Y\<bar> \<le> \<bar>r\<bar>"
    unfolding Y_def abs_mult using abs_sin_le_one[of a] by (simp add: mult_left_le)
  then have Y: "Y \<le> \<bar>r\<bar>" "- \<bar>r\<bar> \<le> Y" by linarith+
  have "c_x (ringCandidate pt r a) = p_x pt + X - p_width pt / 2"
    "c_y (ringCandidate pt r a) = p_y pt + Y - p_height pt / 2"
    by (simp_all add: ringCandidate_def mkCandidate_def X_def Y_def)
  with X Y show ?thesis by linarith
qed

text \<open>With the default options no ring is wider than 50 pixels.\<close>

lemma default_candidate_box:
  assumes "options this = options chart20" and "c \<in> set (generateCandidates this pt)"
  shows "(\<exists>i r n j. c \<in> set (primaryCandidate (chartSize this) pt i)
                  \<or> c \<in> set (expandingCandidate (chartSize this) pt r n j))
       \<or> (p_x pt - p_width pt / 2 - 50 \<le> c_x c \<and> c_x c \<le> p_x pt - p_width pt / 2 + 50
          \<and> p_y pt - p_height pt / 2 - 50 \<le> c_y c \<and> c_y c \<le> p_y pt - p_height pt / 2 + 50)"
proof -
  from candidate_kinds[OF assms(2)] consider
      (clamped) "\<exists>i r n j. c \<in> set (primaryCandidate (chartSize this) pt i)
                  \<or> c \<in> set (expandingCandidate (chartSize this) pt r n j)"
    | (ring) ring a where "1 \<le> ring" "int ring \<le> rings (options this)"
           "c = ringCandidate pt (exclusionRadius + real ring * 5) a
            \<or> c = ringCandidate pt (max exclusionRadius (radius (options this) * real ring)) a"
    by blast
  then show ?thesis
  proof cases
    case clamped
    then show ?thesis by blast
  next
    case ring
    have r5: "real ring \<le> 5" using ring(2) assms(1) by (simp add: chart20_defs)
    have rad: "radius (options this) = 10" using assms(1) by (simp add: chart20_defs)
    have b1: "\<bar>exclusionRadius + real ring * 5\<bar> \<le> 50"
      using r5 by (simp add: exclusionRadius_def)
    have b2: "\<bar>max exclusionRadius (radius (options this) * real ring)\<bar> \<le> 50"
      using r5 rad by (simp add: exclusionRadius_def max_def)
    from ring(3) have "p_x pt - p_width pt / 2 - 50 \<le> c_x c \<and> c_x c \<le> p_x pt - p_width pt / 2 + 50
          \<and> p_y pt - p_height pt / 2 - 50 \<le> c_y c \<and> c_y c \<le> p_y pt - p_height pt / 2 + 50"
    proof
      assume e: "c = ringCandidate pt (exclusionRadius + real ring * 5) a"
      show ?thesis
        unfolding e using ring_candidate_box[of pt "exclusionRadius + real ring * 5" a] b1 by linarith
    next
      assume e: "c = ringCandidate pt (max exclusionRadius (radius (options this) * real ring)) a"
      show ?thesis
        unfolding e
        using ring_candidate_box[of pt "max exclusionRadius (radius (options this) * real ring)" a] b2
        by linarith
    qed
    then show ?thesis by blast
  qed
qed

lemma anchorB_collides:
  assumes "c \<in> set (generateCandidates (commit chart20 labelA) anchorB)"
  shows "intersects (toRTreeBox (labelAt anchorB c) 2) (toRTreeBox labelA 2)"
proof -
  have o: "options (commit chart20 labelA) = options chart20" by simp
  have cs: "chartSize (commit chart20 labelA) = \<lparr>cs_width = 20, cs_height = 20\<rparr>"
    by (simp add: chart20_def newLabelPlacer_def)
  from default_candidate_box[OF o assms] show ?thesis
  proof
    assume "\<exists>i r n j. c \<in> set (primaryCandidate (chartSize (commit chart20 labelA)) anchorB i)
                  \<or> c \<in> set (expandingCandidate (chartSize (commit chart20 labelA)) anchorB r n j)"
    then have "c = mkCandidate 1 1"
      using clamped_candidate_corner[of "commit chart20 labelA" anchorB c] cs
      by (auto simp: anchorB_def)
    then show ?thesis
      by (simp add: intersects_def toRTreeBox_def labelAt_def labelA_def mkCandidate_def anchorB_def)
  next
    assume "p_x anchorB - p_width anchorB / 2 - 50 \<le> c_x c \<and> c_x c \<le> p_x anchorB - p_width anchorB / 2 + 50
          \<and> p_y anchorB - p_height anchorB / 2 - 50 \<le> c_y c \<and> c_y c \<le> p_y anchorB - p_height anchorB / 2 + 50"
    then have "- 90 \<le> c_x c \<and> c_x c \<le> 10 \<and> - 78 \<le> c_y c \<and> c_y c \<le> 22"
      by (simp add: anchorB_def)
    then show ?thesis
      by (simp add: intersects_def toRTreeBox_def labelAt_def labelA_def anchorB_def)
  qed
qed


lemma collisions_nonempty:
  assumes "b \<in> set (tree this)" and "intersects (toRTreeBox (labelAt pt c) 2) b"
  shows "collisions this pt c \<noteq> []"
  using assms by (auto simp: collisions_def Let_def search_def intersects_padded filter_empty_conv)

section \<open>The invariants of the output\<close>

subsection \<open>No overlap\<close>

lemma first_ring_candidate_PQ:
  "ringCandidate anchorP 12 0 = mkCandidate 13 (- 1)" "ringCandidate anchorQ 12 0 = mkCandidate 14 (- 1)"
  by (simp_all add: ringCandidate_def anchorP_def anchorQ_def)

lemma score_NaN_PQ:
  assumes "chartSize th = \<lparr>cs_width = 0, cs_height = 0\<rparr>"
  shows "finalScore th anchorP (ringCandidate anchorP 12 0) = NaN"
    and "finalScore th anchorQ (ringCandidate anchorQ 12 0) = NaN"
proof -
  have "finalScore th anchorP (mkCandidate 13 (- 1)) = NaN"
    using finalScore_degenerate[of th anchorP "mkCandidate 13 (- 1)"] assms
    by (simp add: mkCandidate_def anchorP_def)
  then show "finalScore th anchorP (ringCandidate anchorP 12 0) = NaN"
    unfolding first_ring_candidate_PQ .
  have "finalScore th anchorQ (mkCandidate 14 (- 1)) = NaN"
    using finalScore_degenerate[of th anchorQ "mkCandidate 14 (- 1)"] assms
    by (simp add: mkCandidate_def anchorQ_def)
  then show "finalScore th anchorQ (ringCandidate anchorQ 12 0) = NaN"
    unfolding first_ring_candidate_PQ .
qed

text \<open>
  C1: in the output of a pass the boxes of two distinct labels, each padded by 2 pixels,
  do not intersect, and a group all of whose candidates collide is dropped. The code
  takes 100000 off the score of a candidate for every padded box of the index that it
  meets, and skips the label when the best score is at or below \<open>-100000\<close>; on a chart
  of non-zero width and height that keeps the boxes apart (\<open>output_disjoint\<close>). On the
  chart of zero width and height, with the default options, it does not: the first
  candidate of the point \<open>(8, 0)\<close> meets the box of the label just placed for \<open>(7, 0)\<close>,
  its centre bonus is \<open>0 / 0\<close> and its score NaN; the comparison of NaN with the threshold
  is false, and the colliding label is committed. The pass returns two labels, 12 pixels
  wide, at \<open>(13, -1)\<close> and \<open>(14, -1)\<close>.
\<close>

theorem C1_overlapping_labels_committed:
  "placeAll chartZero [anchorP, anchorQ]
     = Inr ([labelP, labelQ], commit (commit chartZero labelP) labelQ)
   \<and> collisions (commit chartZero labelP) anchorQ (ringCandidate anchorQ 12 0) = [toRTreeBox labelP 2]
   \<and> finalScore (commit chartZero labelP) anchorQ (ringCandidate anchorQ 12 0) = NaN
   \<and> labelAt anchorQ (ringCandidate anchorQ 12 0) = labelQ
   \<and> intersects (toRTreeBox labelP 2) (toRTreeBox labelQ 2)"
proof (intro conjI)
  show "placeAll chartZero [anchorP, anchorQ]
     = Inr ([labelP, labelQ], commit (commit chartZero labelP) labelQ)"
    by (rule pass_PQ)
  show "finalScore (commit chartZero labelP) anchorQ (ringCandidate anchorQ 12 0) = NaN"
    by (rule score_NaN_PQ) (simp add: commit_def chartZero_def newLabelPlacer_def)
  have "tree (commit chartZero labelP) = [toRTreeBox labelP 2]"
    by (simp add: commit_def chartZero_def newLabelPlacer_def)
  then show "collisions (commit chartZero labelP) anchorQ (ringCandidate anchorQ 12 0) = [toRTreeBox labelP 2]"
    unfolding collisions_def Let_def search_def first_ring_candidate_PQ
    by (simp add: queryBox_def intersects_def toRTreeBox_def labelP_def mkCandidate_def anchorQ_def)
  show "labelAt anchorQ (ringCandidate anchorQ 12 0) = labelQ"
    unfolding first_ring_candidate_PQ by (simp add: labelAt_def mkCandidate_def labelQ_def anchorQ_def)
  show "intersects (toRTreeBox labelP 2) (toRTreeBox labelQ 2)"
    by (simp add: intersects_def toRTreeBox_def labelP_def labelQ_def)
qed

subsection \<open>The exclusion zone of the label's own point\<close>

lemma pass_P: "placeAll chartZero [anchorP] = Inr ([labelP], commit chartZero labelP)"
proof -
  let ?th0 = "chartZero\<lparr>tree := [], placedLabels := []\<rparr>"
  have th0: "?th0 = chartZero" unfolding chartZero_def newLabelPlacer_def by simp
  have a: "placeLabelForPoint chartZero anchorP = Inr (Some labelP)"
    by (rule place_anchorP) (simp_all add: chartZero_defs)
  have pl: "placedLabels chartZero = []" by (simp add: chartZero_def newLabelPlacer_def)
  have g: "map snd (sortedGroups [anchorP]) = [[anchorP]]"
    by (simp add: sortedGroups_def pointGroups_def sort_js_def)
  show ?thesis
    unfolding placeAll_def Let_def th0
    by (simp add: g placeGroup_def groupPoint_def a pl)
qed

text \<open>Every label of the output of a pass on a proper chart was a clean candidate.\<close>

lemma output_clean:
  assumes "placeAll this points = Inr (out, this')"
    and "cs_width (chartSize this) \<noteq> 0" and "cs_height (chartSize this) \<noteq> 0"
    and "0 \<le> outOfBoundsPenalty (options this)"
    and "l \<in> set out"
  shows "\<exists>before c. l = labelAt (l_forPoint l) c
           \<and> \<not> overlapsExclusionZone (l_forPoint l) c \<and> \<not> violatesBoundary (l_forPoint l) c
           \<and> coveredCost (placerWith this before) (l_forPoint l) c < 99940"
proof -
  from assms(5) obtain n where n: "n < length out" "out ! n = l" by (auto simp: in_set_conv_nth)
  from placeAll_trace[OF assms(1)] n
  have "chosenIn this (map snd (sortedGroups (filter hasLabel points))) (take n out) l" by blast
  then obtain pt c where c: "c \<in> set (generateCandidates (placerWith this (take n out)) pt)"
      and sc: "\<not> jle (finalScore (placerWith this (take n out)) pt c) (Fin (- 100000))"
      and l: "l = labelAt pt c"
    unfolding chosenIn_def by blast
  have pt: "l_forPoint l = pt" using l by (simp add: labelAt_def)
  from committed_clean[OF _ _ _ c sc] assms(2-4)
  have clean: "\<not> overlapsExclusionZone pt c \<and> \<not> violatesBoundary pt c
         \<and> coveredCost (placerWith this (take n out)) pt c < 99940" by simp
  show ?thesis
    unfolding pt using clean l by blast
qed

lemma corner_anchorB: "mkCandidate 1 1 \<in> set (generateCandidates chart20 anchorB)"
proof (rule corner_candidate)
  show "cs_width (chartSize chart20) - 1 - p_width anchorB \<le> 1"
    "cs_height (chartSize chart20) - 1 - p_height anchorB \<le> 1"
    by (simp_all add: chart20_defs anchorB_def)
  have "\<not> sqrt ((1 + 100 / 2 - 10)\<^sup>2 + (1 + 100 / 2 - 22)\<^sup>2) < (7::real)"
    by (rule sqrt_ge_7) simp
  then show "exclusionRadius \<le> distanceToPoint anchorB 1 1"
    by (simp add: distanceToPoint_def anchorB_def exclusionRadius_def)
qed

lemma pass_Q: "placeAll chartZero [anchorQ] = Inr ([labelQ], commit chartZero labelQ)"
proof -
  have th0: "chartZero\<lparr>tree := [], placedLabels := []\<rparr> = chartZero"
    unfolding chartZero_def newLabelPlacer_def by simp
  have a: "placeLabelForPoint chartZero anchorQ = Inr (Some labelQ)"
    by (rule place_anchorQ) (simp_all add: chartZero_defs)
  have pl: "placedLabels chartZero = []" by (simp add: chartZero_def newLabelPlacer_def)
  have g: "map snd (sortedGroups [anchorQ]) = [[anchorQ]]"
    by (simp add: sortedGroups_def pointGroups_def sort_js_def)
  show ?thesis
    unfolding placeAll_def Let_def th0
    by (simp add: g placeGroup_def groupPoint_def a pl)
qed

text \<open>
  C10: no committed label overlaps the square of side 14 around the point of its own
  group, and every corner of it is at least 7 pixels from that point. The code takes
  100000 off the score of a candidate that violates either condition and skips the label
  when the best score is at or below \<open>-100000\<close>; on a chart of non-zero width and height
  no such candidate is committed (\<open>output_clean\<close>). On the chart of zero width and height,
  with the default options, the first candidate of the point \<open>(8, 0)\<close> is the box of
  width 12 at \<open>(14, -1)\<close>: it overlaps the square \<open>[1, 15] \<times> [-7, 7]\<close> and its corner
  \<open>(14, -1)\<close> is nearer than 7 pixels. Its score is NaN, with the penalty as without,
  the comparison with the threshold is false, and the label is committed.
\<close>

theorem C10_label_in_own_exclusion_zone:
  "placeAll chartZero [anchorQ] = Inr ([labelQ], commit chartZero labelQ)
   \<and> l_forPoint labelQ = anchorQ
   \<and> labelAt anchorQ (ringCandidate anchorQ 12 0) = labelQ
   \<and> overlapsExclusionZone anchorQ (ringCandidate anchorQ 12 0)
   \<and> violatesBoundary anchorQ (ringCandidate anchorQ 12 0)
   \<and> finalScore chartZero anchorQ (ringCandidate anchorQ 12 0) = NaN
   \<and> (l_x labelQ < p_x anchorQ + 7 \<and> l_x labelQ + l_width labelQ > p_x anchorQ - 7
      \<and> l_y labelQ < p_y anchorQ + 7 \<and> l_y labelQ + l_height labelQ > p_y anchorQ - 7)
   \<and> sqrt ((l_x labelQ - p_x anchorQ)\<^sup>2 + (l_y labelQ - p_y anchorQ)\<^sup>2) < 7"
proof (intro conjI)
  show "placeAll chartZero [anchorQ] = Inr ([labelQ], commit chartZero labelQ)" by (rule pass_Q)
  show "labelAt anchorQ (ringCandidate anchorQ 12 0) = labelQ"
    unfolding first_ring_candidate_PQ by (simp add: labelAt_def mkCandidate_def labelQ_def anchorQ_def)
  show "overlapsExclusionZone anchorQ (ringCandidate anchorQ 12 0)"
    unfolding first_ring_candidate_PQ
    by (simp add: overlapsExclusionZone_def Let_def mkCandidate_def anchorQ_def exclusionRadius_def)
  show "violatesBoundary anchorQ (ringCandidate anchorQ 12 0)"
    unfolding first_ring_candidate_PQ
    by (simp add: violatesBoundary_def Let_def mkCandidate_def anchorQ_def exclusionRadius_def sqrt_lt_7)
  show "finalScore chartZero anchorQ (ringCandidate anchorQ 12 0) = NaN"
    by (rule score_NaN_PQ) (simp add: chartZero_def newLabelPlacer_def)
qed (simp_all add: labelQ_def anchorQ_def sqrt_lt_7)

subsection \<open>Other points\<close>

lemma coveredPenalty_fold:
  "fold (\<lambda>otherPt acc.
             if Some (r_ident otherPt) = p_ident pt then acc
             else if pointInRect (r_x otherPt) (r_y otherPt) x0 y0 w h
             then acc + pp else acc) others a
   = a + pp * real (length (filter (\<lambda>otherPt. Some (r_ident otherPt) \<noteq> p_ident pt
                                      \<and> pointInRect (r_x otherPt) (r_y otherPt) x0 y0 w h) others))"
  by (induction others arbitrary: a) (simp_all add: algebra_simps)

lemma coveredPenalty_count:
  "coveredPenalty opts pt c others
   = pointPenalty opts * real (length (filter (\<lambda>otherPt. Some (r_ident otherPt) \<noteq> p_ident pt
        \<and> pointInRect (r_x otherPt) (r_y otherPt) (c_x c) (c_y c) (p_width pt) (p_height pt)) others))"
  unfolding coveredPenalty_def coveredPenalty_fold by simp

text \<open>
  C2, as stated: no label of the output intersects the disk of radius 7 around a point
  outside the label's own group. In the pass on the chart of 20 by 20 pixels the label of
  \<open>anchorA\<close> is the box \<open>[1, 19] \<times> [1, 19]\<close>; its point \<open>(10, 19)\<close> is 3 pixels from
  \<open>anchorB\<close>, which lies at \<open>(10, 22)\<close> in another group.
\<close>

theorem C2_other_anchors_counterexample:
  "placeAll chart20 [anchorA, anchorB] = Inr ([labelA], commit chart20 labelA)
   \<and> l_forPoint labelA = anchorA \<and> groupKey anchorB \<noteq> groupKey anchorA
   \<and> pointInRect 10 19 (l_x labelA) (l_y labelA) (l_width labelA) (l_height labelA)
   \<and> sqrt ((10 - p_x anchorB)\<^sup>2 + (19 - p_y anchorB)\<^sup>2) < 7"
proof (intro conjI)
  show "placeAll chart20 [anchorA, anchorB] = Inr ([labelA], commit chart20 labelA)"
    by (rule pass_AB)
qed (simp_all add: labelA_def anchorA_def anchorB_def groupKey_def mathRound_def pointInRect_def sqrt_lt_7)

text \<open>
  C2, amended: the points of other groups are not excluded, they cost points. For every
  label in the output of a pass on a chart of non-zero width and height whose
  \<open>outOfBoundsPenalty\<close> is not negative, \<open>pointPenalty\<close> times the number of the points
  referred to by \<open>allPoints\<close>, other than the object the label was placed for, that lie
  in the label's rectangle is less than 99940 (with the default penalty of 500, fewer
  than 200 points). A disk around another point is nowhere tested.
\<close>

theorem C2_other_anchors:
  assumes "cs_width (chartSize this) \<noteq> 0" and "cs_height (chartSize this) \<noteq> 0"
    and "0 \<le> outOfBoundsPenalty (options this)"
    and "placeAll this points = Inr (out, this')"
    and "l \<in> set out" and "p_allPoints (l_forPoint l) = Some others"
  shows "pointPenalty (options this)
           * real (length (filter (\<lambda>otherPt. Some (r_ident otherPt) \<noteq> p_ident (l_forPoint l)
                \<and> pointInRect (r_x otherPt) (r_y otherPt) (l_x l) (l_y l) (l_width l) (l_height l)) others))
         < 99940"
proof -
  from output_clean[OF assms(4,1,2,3,5)] obtain before c where c: "l = labelAt (l_forPoint l) c"
    and cc: "coveredCost (placerWith this before) (l_forPoint l) c < 99940"
    by blast
  have f: "l_x l = c_x c" "l_y l = c_y c" "l_width l = p_width (l_forPoint l)"
    "l_height l = p_height (l_forPoint l)"
    using c by (metis LabelBox.select_convs(1) labelAt_def, metis LabelBox.select_convs(2) labelAt_def,
                metis LabelBox.select_convs(3) labelAt_def, metis LabelBox.select_convs(4) labelAt_def)
  from cc assms(6) have "coveredPenalty (options this) (l_forPoint l) c others < 99940"
    by (simp add: coveredCost_def)
  then show ?thesis unfolding f coveredPenalty_count .
qed

theorem C2_other_anchors_witness:
  "cs_width (chartSize chart20) \<noteq> 0 \<and> cs_height (chartSize chart20) \<noteq> 0
   \<and> 0 \<le> outOfBoundsPenalty (options chart20)
   \<and> placeAll chart20 [anchorA, anchorB] = Inr ([labelA], commit chart20 labelA)
   \<and> labelA \<in> set [labelA] \<and> p_allPoints (l_forPoint labelA) = Some refsAB
   \<and> pointPenalty (options chart20)
           * real (length (filter (\<lambda>otherPt. Some (r_ident otherPt) \<noteq> p_ident (l_forPoint labelA)
                \<and> pointInRect (r_x otherPt) (r_y otherPt) (l_x labelA) (l_y labelA) (l_width labelA) (l_height labelA)) refsAB))
         < 99940"
proof -
  have h0: "cs_width (chartSize chart20) \<noteq> 0" "cs_height (chartSize chart20) \<noteq> 0"
    "0 \<le> outOfBoundsPenalty (options chart20)"
    by (simp_all add: chart20_defs)
  have m: "labelA \<in> set [labelA]" by simp
  have a: "p_allPoints (l_forPoint labelA) = Some refsAB" by (simp add: labelA_def anchorA_def)
  from C2_other_anchors[OF h0 pass_AB m a] h0 pass_AB m a show ?thesis by blast
qed

section \<open>Selection, the threshold and determinism\<close>

lemma commit_record:
  "commit this l = this\<lparr>tree := tree this @ [toRTreeBox l 2], placedLabels := placedLabels this @ [l]\<rparr>"
  by (simp add: commit_def)

text \<open>
  A group that is processed and whose point has at least one candidate: all the
  candidates are scored and one that no other candidate beats is selected. When its score
  is at or below \<open>-100000\<close> the group yields no label and the placer, its index included,
  is left as it was. Otherwise exactly one label is committed, appended to the placed
  labels, and its box padded by 2 pixels is inserted into the index. A pass that returns
  returns at most as many labels as there are groups, and fewer when a group was dropped.
\<close>

lemma group_with_candidates:
  "(groupPoint g = Inr pt \<and> generateCandidates this pt \<noteq> [] \<longrightarrow>
      (\<exists>c\<in>set (generateCandidates this pt).
         (\<forall>c'\<in>set (generateCandidates this pt). \<not> jgt (finalScore this pt c') (finalScore this pt c))
         \<and> (jle (finalScore this pt c) (Fin (- 100000)) \<longrightarrow> placeGroup this g = Inr this)
         \<and> (\<not> jle (finalScore this pt c) (Fin (- 100000)) \<longrightarrow>
              placeGroup this g
                = Inr (this\<lparr>tree := tree this @ [toRTreeBox (labelAt pt c) 2],
                            placedLabels := placedLabels this @ [labelAt pt c]\<rparr>))))
   \<and> (placeAll this points = Inr (out, this') \<longrightarrow>
        length out \<le> length (sortedGroups (filter hasLabel points))
        \<and> (\<forall>pre g' post th pt'.
              map snd (sortedGroups (filter hasLabel points)) = pre @ g' # post
              \<and> placeGroups (this\<lparr>tree := [], placedLabels := []\<rparr>) pre = Inr th
              \<and> groupPoint g' = Inr pt' \<and> placeLabelForPoint th pt' = Inr None
              \<longrightarrow> length out < length (sortedGroups (filter hasLabel points))))"
proof (intro conjI impI allI)
  assume a: "groupPoint g = Inr pt \<and> generateCandidates this pt \<noteq> []"
  then have ne: "generateCandidates this pt \<noteq> []" and g: "groupPoint g = Inr pt" by simp_all
  let ?cs = "generateCandidates this pt"
  from placeLabelForPoint_chosen[OF ne] obtain i where i: "i < length ?cs"
    and mx: "\<forall>j<length ?cs. \<not> jgt (finalScore this pt (?cs ! j)) (finalScore this pt (?cs ! i))"
    and r: "placeLabelForPoint this pt =
             (if jle (finalScore this pt (?cs ! i)) (Fin (- 100000))
              then Inr None else Inr (Some (labelAt pt (?cs ! i))))"
    by blast
  have best: "\<forall>c'\<in>set ?cs. \<not> jgt (finalScore this pt c') (finalScore this pt (?cs ! i))"
    using mx by (auto simp: in_set_conv_nth)
  have d: "jle (finalScore this pt (?cs ! i)) (Fin (- 100000)) \<longrightarrow> placeGroup this g = Inr this"
    using r g by (simp add: placeGroup_def)
  have k: "\<not> jle (finalScore this pt (?cs ! i)) (Fin (- 100000)) \<longrightarrow>
              placeGroup this g
                = Inr (this\<lparr>tree := tree this @ [toRTreeBox (labelAt pt (?cs ! i)) 2],
                            placedLabels := placedLabels this @ [labelAt pt (?cs ! i)]\<rparr>)"
    using r g by (simp add: placeGroup_def commit_record)
  show "\<exists>c\<in>set ?cs.
         (\<forall>c'\<in>set ?cs. \<not> jgt (finalScore this pt c') (finalScore this pt c))
         \<and> (jle (finalScore this pt c) (Fin (- 100000)) \<longrightarrow> placeGroup this g = Inr this)
         \<and> (\<not> jle (finalScore this pt c) (Fin (- 100000)) \<longrightarrow>
              placeGroup this g
                = Inr (this\<lparr>tree := tree this @ [toRTreeBox (labelAt pt c) 2],
                            placedLabels := placedLabels this @ [labelAt pt c]\<rparr>))"
    using best d k i by (intro bexI[of _ "?cs ! i"]) simp_all
next
  assume "placeAll this points = Inr (out, this')"
  from placeAll_trace[OF this]
  show "length out \<le> length (sortedGroups (filter hasLabel points))" by simp
next
  fix pre g' post th pt'
  assume pass: "placeAll this points = Inr (out, this')"
    and a: "map snd (sortedGroups (filter hasLabel points)) = pre @ g' # post
              \<and> placeGroups (this\<lparr>tree := [], placedLabels := []\<rparr>) pre = Inr th
              \<and> groupPoint g' = Inr pt' \<and> placeLabelForPoint th pt' = Inr None"
  let ?th0 = "this\<lparr>tree := [], placedLabels := []\<rparr>"
  from pass have run: "placeGroups ?th0 (map snd (sortedGroups (filter hasLabel points))) = Inr this'"
    and out: "out = placedLabels this'"
    by (auto simp: placeAll_def Let_def split: sum.splits)
  have t: "tree ?th0 = map (\<lambda>l. toRTreeBox l 2) (placedLabels ?th0)" by simp
  from a run have run': "placeGroups ?th0 (pre @ g' # post) = Inr this'" by simp
  from dropped_fewer[OF run' t] a
  have "length (placedLabels this') < length (placedLabels ?th0) + length (pre @ g' # post)" by blast
  moreover have "length (pre @ g' # post) = length (sortedGroups (filter hasLabel points))"
    using a by (metis length_map)
  ultimately show "length out < length (sortedGroups (filter hasLabel points))"
    using out by simp
qed

lemma sqrt_484: "sqrt 484 = 22"
  using real_sqrt_abs[of 22] by simp

lemmas chart4_defs = chart4_def newLabelPlacer_def mergeOptions_def DEFAULT_OPTIONS_def noOptions_def spread_def

lemma score_anchorF:
  assumes "chartSize th = \<lparr>cs_width = 4, cs_height = 4\<rparr>" and "tree th = []"
  shows "finalScore th anchorF (mkCandidate 1 1) = Fin (- 274)"
proof -
  have A: "p_x anchorF = 2" "p_y anchorF = - 20" "p_width anchorF = 2" "p_height anchorF = 2"
    "p_allPoints anchorF = None"
    by (simp_all add: anchorF_def)
  have ctr: "c_x (mkCandidate 1 1) + p_width anchorF / 2 = 2" "c_y (mkCandidate 1 1) + p_height anchorF / 2 = 2"
    by (simp_all add: mkCandidate_def A)
  have cb: "centerBonus \<lparr>cs_width = 4, cs_height = 4\<rparr> 2 2 = Fin 10"
    by (simp add: centerBonus_def Let_def)
  have o: "overlapStep th anchorF (mkCandidate 1 1) (Fin 0) = Fin 0"
    using assms(2) by (simp add: overlapStep_def collisions_def Let_def search_def)
  have p: "pointStep th anchorF (mkCandidate 1 1) (Fin 0) = Fin 0"
    by (simp add: pointStep_def A)
  have b: "borderStep \<lparr>cs_width = 4, cs_height = 4\<rparr> 2 2 (Fin 0) = Fin (- 64)"
    by (simp add: borderStep_def Let_def power2_eq_square)
  have ob: "outOfBoundsStep th anchorF (mkCandidate 1 1) (Fin v) = Fin v" for v
    using assms(1) by (simp add: outOfBoundsStep_def isOutOfBounds_def A mkCandidate_def Let_def)
  have d: "distanceStep anchorF 2 2 (Fin v) = Fin (v - 220)" for v
    by (simp add: distanceStep_def Let_def A sqrt_484)
  have sc: "c_score (scoreCandidate th anchorF (mkCandidate 1 1)) = Fin (- 274)"
    unfolding scoreCandidate_def Let_def ctr assms(1) o p b cb
    by (simp only: jadd.simps ob d) simp
  have "\<not> overlapsExclusionZone anchorF (mkCandidate 1 1)"
    by (simp add: overlapsExclusionZone_def Let_def A mkCandidate_def exclusionRadius_def)
  moreover have "\<not> violatesBoundary anchorF (mkCandidate 1 1)"
    by (simp add: violatesBoundary_def Let_def A mkCandidate_def exclusionRadius_def sqrt_ge_7)
  ultimately show ?thesis
    using sc by (simp add: finalScore_def applyBoundaryPenalty_def)
qed

lemma place_anchorF:
  assumes "chartSize th = \<lparr>cs_width = 4, cs_height = 4\<rparr>" and "rings (options th) = 0" and "tree th = []"
  shows "placeLabelForPoint th anchorF = Inr (Some labelF)"
proof -
  have w: "cs_width (chartSize th) - 1 - p_width anchorF \<le> 1" "cs_height (chartSize th) - 1 - p_height anchorF \<le> 1"
    using assms(1) by (simp_all add: anchorF_def)
  have far: "exclusionRadius \<le> distanceToPoint anchorF 1 1"
    by (simp add: distanceToPoint_def anchorF_def exclusionRadius_def sqrt_484)
  have c0: "mkCandidate 1 1 \<in> set (generateCandidates th anchorF)"
    by (rule corner_candidate[OF w far])
  have nz: "cs_width (chartSize th) \<noteq> 0" "cs_height (chartSize th) \<noteq> 0" using assms(1) by simp_all
  have others: "c_x c = c_x (mkCandidate 1 1) \<and> c_y c = c_y (mkCandidate 1 1)"
    if c: "c \<in> set (generateCandidates th anchorF)" for c
  proof -
    from candidate_kinds[OF c] assms(2)
    have "(\<exists>i. c \<in> set (primaryCandidate (chartSize th) anchorF i))
       \<or> (\<exists>r n i. c \<in> set (expandingCandidate (chartSize th) anchorF r n i))"
      by auto
    then have "c = mkCandidate 1 1" using clamped_candidate_corner[OF w] by blast
    then show ?thesis by simp
  qed
  have "placeLabelForPoint th anchorF = Inr (Some (labelAt anchorF (mkCandidate 1 1)))"
    by (rule dominant_candidate[OF nz c0 score_anchorF[OF assms(1,3)]]) (use others in auto)
  moreover have "labelAt anchorF (mkCandidate 1 1) = labelF"
    by (simp add: labelAt_def labelF_def mkCandidate_def anchorF_def)
  ultimately show ?thesis by simp
qed

lemma no_candidates_anchorD:
  assumes "chartSize th = \<lparr>cs_width = 4, cs_height = 4\<rparr>" and "rings (options th) = 0"
  shows "generateCandidates th anchorD = []"
proof -
  have "generateCandidates th anchorD =
           concat (map (fallbackRing (options th) anchorD) [1..<Suc (nat (rings (options th)))])
           @ concat (map (halfStepRing (options th) anchorD) [1..<Suc (nat (rings (options th)))])"
    by (rule clamped_candidates_none)
       (simp_all add: assms(1) anchorD_def distanceToPoint_def exclusionRadius_def)
  then show ?thesis by (simp add: assms(2))
qed

text \<open>
  C3: every group that is processed either yields no label, when its best score is at or
  below \<open>-100000\<close>, or exactly one; a group is skipped, never thrown, and the pass then
  returns fewer labels than there are groups. The code returns null for a label whose
  best score is at or below the threshold, and reads that score from the first element
  of the sorted array without a test that there is one. On the chart of 4 by 4 pixels
  constructed with \<open>rings: 0\<close> the pass over the points \<open>(2, 2)\<close> and \<open>(2, -20)\<close>, each
  with a label of 2 by 2 pixels, first places the label of \<open>(2, -20)\<close> at \<open>(1, 1)\<close>.
  The group of \<open>(2, 2)\<close> has no candidate: the array of its scored candidates is empty,
  reading the score raises a TypeError, and the pass returns no label at all.
\<close>

theorem C3_group_without_candidates_raises:
  "placeGroup chart4 [anchorF] = Inr (commit chart4 labelF)
   \<and> groupPoint [anchorD] = Inr anchorD
   \<and> scoredCandidates (commit chart4 labelF) anchorD = []
   \<and> placeGroup (commit chart4 labelF) [anchorD] = Inl TypeError
   \<and> placeAll chart4 [anchorD, anchorF] = Inl TypeError"
proof -
  have cs: "chartSize chart4 = \<lparr>cs_width = 4, cs_height = 4\<rparr>" and r: "rings (options chart4) = 0"
    and t: "tree chart4 = []"
    by (simp_all add: chart4_defs)
  have cs': "chartSize (commit chart4 labelF) = \<lparr>cs_width = 4, cs_height = 4\<rparr>"
    and r': "rings (options (commit chart4 labelF)) = 0"
    by (simp_all add: commit_def cs r)
  have f: "placeLabelForPoint chart4 anchorF = Inr (Some labelF)"
    by (rule place_anchorF[OF cs r t])
  have gF: "placeGroup chart4 [anchorF] = Inr (commit chart4 labelF)"
    by (simp add: placeGroup_def groupPoint_def f)
  have n: "generateCandidates (commit chart4 labelF) anchorD = []"
    by (rule no_candidates_anchorD[OF cs' r'])
  then have e: "placeLabelForPoint (commit chart4 labelF) anchorD = Inl TypeError"
    by (rule placeLabelForPoint_empty)
  have gD: "placeGroup (commit chart4 labelF) [anchorD] = Inl TypeError"
    by (simp add: placeGroup_def groupPoint_def e)
  have th0: "chart4\<lparr>tree := [], placedLabels := []\<rparr> = chart4"
    unfolding chart4_def newLabelPlacer_def by simp
  have g: "map snd (sortedGroups (filter hasLabel [anchorD, anchorF])) = [[anchorF], [anchorD]]"
    by (simp add: hasLabel_def trim_def isWhiteSpace_def sortedGroups_def pointGroups_def groupKey_def
          mathRound_def sort_js_def byFirstY_def anchorD_def anchorF_def)
  have "placeAll chart4 [anchorD, anchorF] = Inl TypeError"
    unfolding placeAll_def Let_def th0 g by (simp add: gF gD)
  moreover have "scoredCandidates (commit chart4 labelF) anchorD = []"
    by (simp add: scoredCandidates_def n)
  moreover have "groupPoint [anchorD] = Inr anchorD" by (simp add: groupPoint_def)
  ultimately show ?thesis using gF gD by simp
qed

lemma generateCandidates_state:
  "generateCandidates (this\<lparr>tree := t, placedLabels := ls\<rparr>) pt = generateCandidates this pt"
  by (simp add: generateCandidates_def)

text \<open>
  C4: a pass is a function of the chart size, the options and the points. What an earlier
  pass left in the index and in the list of placed labels has no influence on the result,
  nor on the candidates generated for a point; and among the candidates of a point the
  one selected is the first, in the order of generation, of those which no candidate
  beats: every candidate generated before it has a strictly lower score.
\<close>

theorem C4_deterministic:
  "placeAll (this\<lparr>tree := t, placedLabels := ls\<rparr>) points = placeAll this points
   \<and> generateCandidates (this\<lparr>tree := t, placedLabels := ls\<rparr>) pt = generateCandidates this pt
   \<and> (generateCandidates this pt \<noteq> [] \<longrightarrow>
        (\<exists>i<length (generateCandidates this pt).
           (\<forall>j<length (generateCandidates this pt).
               \<not> jgt (finalScore this pt (generateCandidates this pt ! j))
                      (finalScore this pt (generateCandidates this pt ! i)))
         \<and> (\<forall>j<i. jgt (finalScore this pt (generateCandidates this pt ! i))
                       (finalScore this pt (generateCandidates this pt ! j)))
         \<and> placeLabelForPoint this pt =
             (if jle (finalScore this pt (generateCandidates this pt ! i)) (Fin (- 100000))
              then Inr None else Inr (Some (labelAt pt (generateCandidates this pt ! i))))))"
proof (intro conjI impI)
  show "placeAll (this\<lparr>tree := t, placedLabels := ls\<rparr>) points = placeAll this points"
    by (simp add: placeAll_def)
  show "generateCandidates (this\<lparr>tree := t, placedLabels := ls\<rparr>) pt = generateCandidates this pt"
    by (rule generateCandidates_state)
next
  assume "generateCandidates this pt \<noteq> []"
  then show "\<exists>i<length (generateCandidates this pt).
           (\<forall>j<length (generateCandidates this pt).
               \<not> jgt (finalScore this pt (generateCandidates this pt ! j))
                      (finalScore this pt (generateCandidates this pt ! i)))
         \<and> (\<forall>j<i. jgt (finalScore this pt (generateCandidates this pt ! i))
                       (finalScore this pt (generateCandidates this pt ! j)))
         \<and> placeLabelForPoint this pt =
             (if jle (finalScore this pt (generateCandidates this pt ! i)) (Fin (- 100000))
              then Inr None else Inr (Some (labelAt pt (generateCandidates this pt ! i))))"
    by (rule placeLabelForPoint_chosen)
qed

theorem C4_deterministic_witness:
  "generateCandidates chart20 anchorA \<noteq> []
   \<and> placeAll (chart20\<lparr>tree := [toRTreeBox labelA 2], placedLabels := [labelA]\<rparr>) [anchorA, anchorB]
       = Inr ([labelA], commit chart20 labelA)
   \<and> (\<exists>i<length (generateCandidates chart20 anchorA).
           (\<forall>j<i. jgt (finalScore chart20 anchorA (generateCandidates chart20 anchorA ! i))
                       (finalScore chart20 anchorA (generateCandidates chart20 anchorA ! j)))
         \<and> placeLabelForPoint chart20 anchorA =
             (if jle (finalScore chart20 anchorA (generateCandidates chart20 anchorA ! i)) (Fin (- 100000))
              then Inr None else Inr (Some (labelAt anchorA (generateCandidates chart20 anchorA ! i)))))"
proof -
  have ne: "generateCandidates chart20 anchorA \<noteq> []"
    using first_fallback_candidate[of chart20 anchorA] by (auto simp: chart20_defs)
  note t = C4_deterministic[where this = chart20 and t = "[toRTreeBox labelA 2]" and ls = "[labelA]"
             and points = "[anchorA, anchorB]" and pt = anchorA]
  from t pass_AB
  have "placeAll (chart20\<lparr>tree := [toRTreeBox labelA 2], placedLabels := [labelA]\<rparr>) [anchorA, anchorB]
       = Inr ([labelA], commit chart20 labelA)" by simp
  moreover from t ne
  have "\<exists>i<length (generateCandidates chart20 anchorA).
           (\<forall>j<i. jgt (finalScore chart20 anchorA (generateCandidates chart20 anchorA ! i))
                       (finalScore chart20 anchorA (generateCandidates chart20 anchorA ! j)))
         \<and> placeLabelForPoint chart20 anchorA =
             (if jle (finalScore chart20 anchorA (generateCandidates chart20 anchorA ! i)) (Fin (- 100000))
              then Inr None else Inr (Some (labelAt anchorA (generateCandidates chart20 anchorA ! i))))"
    by blast
  ultimately show ?thesis using ne by blast
qed

section \<open>Grouping\<close>

lemma distinct_filter_le_1:
  "distinct (map f xs) \<Longrightarrow> length (filter (\<lambda>x. f x = k) xs) \<le> 1"
proof (induction xs)
  case Nil
  then show ?case by simp
next
  case (Cons x xs)
  show ?case
  proof (cases "f x = k")
    case True
    have "f x \<notin> f ` set xs" using Cons.prems by simp
    then have "\<forall>y\<in>set xs. f y \<noteq> f x" by (metis imageI)
    then have "filter (\<lambda>x. f x = k) xs = []"
      unfolding True by (simp add: filter_empty_conv)
    then show ?thesis using True by simp
  next
    case False
    then show ?thesis using Cons by simp
  qed
qed

lemma length_le_1_cases: "length xs \<le> 1 \<Longrightarrow> xs = [] \<or> (\<exists>x. xs = [x])"
  by (cases xs) (auto simp: length_Suc_conv)

text \<open>Among the sorted groups at most one has a point with a given key.\<close>

lemma groups_with_key:
  "length (filter (\<lambda>g. \<exists>pt. groupPoint g = Inr pt \<and> groupKey pt = k) (map snd (sortedGroups pts))) \<le> 1"
proof -
  have iff: "(\<exists>pt. groupPoint (snd e) = Inr pt \<and> groupKey pt = k) \<longleftrightarrow> fst e = k"
    if "e \<in> set (sortedGroups pts)" for e
  proof -
    from that have "(fst e, snd e) \<in> set (pointGroups pts)" by simp
    from groupPoint_of_group[OF this] obtain pt where "groupPoint (snd e) = Inr pt" "groupKey pt = fst e"
      by blast
    then show ?thesis by auto
  qed
  have "filter (\<lambda>e. \<exists>pt. groupPoint (snd e) = Inr pt \<and> groupKey pt = k) (sortedGroups pts)
        = filter (\<lambda>e. fst e = k) (sortedGroups pts)"
    by (rule filter_cong[OF refl]) (rule iff)
  then have "filter (\<lambda>g. \<exists>pt. groupPoint g = Inr pt \<and> groupKey pt = k) (map snd (sortedGroups pts))
        = map snd (filter (\<lambda>e. fst e = k) (sortedGroups pts))"
    by (simp add: filter_map o_def)
  then show ?thesis
    using distinct_filter_le_1[OF sortedGroups_distinct, of k pts] by simp
qed










section \<open>Exceptions and degenerate input\<close>

text \<open>
  C7 says that a pass never raises, whatever the options. The placer for a chart of 4 by
  4 pixels constructed with \<open>rings: 0\<close>, given the point \<open>(2, 2)\<close> with a label of 2 by 2
  pixels: the 64 primary candidates are clamped to \<open>(1, 1)\<close>, where the centre of the box
  is the point itself, and are not pushed; without rings there is no other candidate;
  the sorted array is empty and reading the score of its first element raises a
  TypeError. (With at least one ring and one angle per ring a pass returns:
  \<open>placeAll_total\<close>.)
\<close>

theorem C7_raises_without_candidates:
  "placeAll chart4 [anchorD] = Inl TypeError"
proof -
  have cs: "chartSize chart4 = \<lparr>cs_width = 4, cs_height = 4\<rparr>" and r: "rings (options chart4) = 0"
    by (simp_all add: chart4_def option_defs)
  have "generateCandidates chart4 anchorD =
           concat (map (fallbackRing (options chart4) anchorD) [1..<Suc (nat (rings (options chart4)))])
           @ concat (map (halfStepRing (options chart4) anchorD) [1..<Suc (nat (rings (options chart4)))])"
    by (rule clamped_candidates_none)
       (simp_all add: cs anchorD_def distanceToPoint_def exclusionRadius_def)
  then have "generateCandidates chart4 anchorD = []" by (simp add: r)
  then have e: "placeLabelForPoint chart4 anchorD = Inl TypeError" by (rule placeLabelForPoint_empty)
  have th0: "chart4\<lparr>tree := [], placedLabels := []\<rparr> = chart4"
    unfolding chart4_def newLabelPlacer_def by simp
  have g: "map snd (sortedGroups (filter hasLabel [anchorD])) = [[anchorD]]"
    by (simp add: hasLabel_def trim_def isWhiteSpace_def sortedGroups_def pointGroups_def sort_js_def
          anchorD_def)
  show ?thesis
    unfolding placeAll_def Let_def th0 g
    by (simp add: placeGroup_def groupPoint_def e)
qed

lemma placeGroups_all_dropped:
  assumes "\<forall>g\<in>set gs. \<exists>pt. groupPoint g = Inr pt \<and> placeLabelForPoint th pt = Inr None"
  shows "placeGroups th gs = Inr th"
  using assms by (induction gs) (auto simp: placeGroup_def)

lemma pass_without_labels:
  assumes "\<forall>pt\<in>set points. \<not> hasLabel pt"
  shows "placeAll this points = Inr ([], this\<lparr>tree := [], placedLabels := []\<rparr>)"
proof -
  have "filter hasLabel points = []" using assms by (simp add: filter_empty_conv)
  then show ?thesis
    by (simp add: placeAll_def sortedGroups_def pointGroups_def)
qed

text \<open>
  C9: on degenerate input, no point with a label or an area of zero size, a pass returns
  the empty list and does not raise. Without a labelled point it does
  (\<open>pass_without_labels\<close>). For an area of zero width or height the code has no test; a
  label is skipped there because the centre bonus divides by zero and the score is
  \<open>-Infinity\<close>, at or below the threshold (\<open>degenerate_dropped\<close>). When the centre of the
  first candidate has the coordinate 0 on the axis of zero extent the division is
  \<open>0 / 0\<close>, the score is NaN, the comparison with the threshold is false and the label is
  committed: on the chart of zero width and height, with the default options, the pass
  over the point \<open>(7, 0)\<close> with a label of 12 by 2 pixels returns the label at \<open>(13, -1)\<close>.
\<close>

theorem C9_label_on_zero_area:
  "cs_width (chartSize chartZero) = 0 \<and> cs_height (chartSize chartZero) = 0
   \<and> finalScore chartZero anchorP (ringCandidate anchorP 12 0) = NaN
   \<and> labelAt anchorP (ringCandidate anchorP 12 0) = labelP
   \<and> placeAll chartZero [anchorP] = Inr ([labelP], commit chartZero labelP)"
proof (intro conjI)
  show "placeAll chartZero [anchorP] = Inr ([labelP], commit chartZero labelP)" by (rule pass_P)
  show "finalScore chartZero anchorP (ringCandidate anchorP 12 0) = NaN"
    by (rule score_NaN_PQ) (simp add: chartZero_def newLabelPlacer_def)
  show "labelAt anchorP (ringCandidate anchorP 12 0) = labelP"
    unfolding first_ring_candidate_PQ by (simp add: labelAt_def mkCandidate_def labelP_def anchorP_def)
qed (simp_all add: chartZero_def newLabelPlacer_def)

end
